theory Spec2Isabelle
  imports Main "HOL-Library.Multiset" "HOL-Library.Sublist"
begin

section \<open>Strings, formatting and the library functions the program calls\<close>

text \<open>
  A Python \<open>str\<close> is modelled as a \<open>string\<close> holding its UTF-8 bytes. The program only
  concatenates strings, compares them for equality (dictionary keys), takes basenames and
  tests the suffix \<open>.pdf\<close>; all of these agree on code points and on their UTF-8 bytes.

  The label is the literal of the f-strings at lines 384, 387, 451 and 513 up to the blank
  that precedes the number: the Arabic words for "document number" (U+0627 U+0644 U+0645
  U+0633 U+062A U+0646 U+062F, a blank, U+0631 U+0642 U+0645).
\<close>

definition label :: string where
  "label = [CHR 0xD8, CHR 0xA7, CHR 0xD9, CHR 0x84, CHR 0xD9, CHR 0x85, CHR 0xD8, CHR 0xB3,
            CHR 0xD8, CHR 0xAA, CHR 0xD9, CHR 0x86, CHR 0xD8, CHR 0xAF, CHR 0x20,
            CHR 0xD8, CHR 0xB1, CHR 0xD9, CHR 0x82, CHR 0xD9, CHR 0x85]"

text \<open>
  \<open>f"{n}"\<close> for a non-negative integer: its decimal digits. Document numbers come from a
  counter that starts at 1 and is only incremented, so they are modelled as \<open>nat\<close>.
\<close>

fun str_nat :: "nat \<Rightarrow> string" where
  "str_nat n =
     (if n < 10 then [''0123456789'' ! n]
      else str_nat (n div 10) @ [''0123456789'' ! (n mod 10)])"

declare str_nat.simps [simp del]

text \<open>\<open>f"{n:03d}"\<close>: the decimal digits, padded with zeros on the left to width 3.\<close>

definition fmt_03d :: "nat \<Rightarrow> string" where
  "fmt_03d n = replicate (3 - length (str_nat n)) (CHR ''0'') @ str_nat n"

text \<open>
  \<open>str.lower\<close> on the ASCII letters. A character outside ASCII may change under Python's
  \<open>lower\<close>, but none of them is mapped to \<open>p\<close>, \<open>d\<close>, \<open>f\<close> or the dot, so the test
  \<open>url.lower().endswith(".pdf")\<close> is decided by the ASCII letters alone.
\<close>

definition lower_char :: "char \<Rightarrow> char" where
  "lower_char c =
     (let n = (of_char c :: nat) in if 65 \<le> n \<and> n \<le> 90 then char_of (n + 32) else c)"

definition lower :: "string \<Rightarrow> string" where
  "lower s = map lower_char s"

definition endswith :: "string \<Rightarrow> string \<Rightarrow> bool" where
  "endswith s suf =
     (length suf \<le> length s \<and> drop (length s - length suf) s = suf)"

text \<open>\<open>s.replace('\\', '/')\<close>.\<close>

definition replace_backslash :: "string \<Rightarrow> string" where
  "replace_backslash s = map (\<lambda>c. if c = CHR 0x5C then CHR ''/'' else c) s"

text \<open>
  The functions of the Python standard library that the program calls on strings and
  paths. \<open>os.path\<close> is the path module of the host (\<open>ntpath\<close> or \<open>posixpath\<close>), so these
  are parameters of the model: every theorem below holds for each choice of them.
\<close>

record pylib =
  strip :: "string \<Rightarrow> string"
  unquote :: "string \<Rightarrow> string"
  normpath :: "string \<Rightarrow> string"
  basename :: "string \<Rightarrow> string"
  join :: "string \<Rightarrow> string \<Rightarrow> string"
  abspath :: "string \<Rightarrow> string"

text \<open>
  \<open>posixpath.basename\<close> (\<open>p[p.rfind('/') + 1:]\<close>) and \<open>posixpath.join\<close> on two
  arguments, for the concrete runs below.
\<close>

definition posix_basename :: "string \<Rightarrow> string" where
  "posix_basename p = rev (takeWhile (\<lambda>c. c \<noteq> CHR ''/'') (rev p))"

definition posix_join :: "string \<Rightarrow> string \<Rightarrow> string" where
  "posix_join a b =
     (if b \<noteq> [] \<and> hd b = CHR ''/'' then b
      else if a = [] \<or> last a = CHR ''/'' then a @ b
      else a @ ''/'' @ b)"

text \<open>
  The library on a POSIX host, for strings without surrounding blanks, percent escapes or
  redundant separators and for absolute folders: on those \<open>strip\<close>, \<open>unquote\<close>,
  \<open>normpath\<close> and \<open>abspath\<close> return their argument.
\<close>

definition posix_lib :: pylib where
  "posix_lib = \<lparr> strip = (\<lambda>s. s), unquote = (\<lambda>s. s), normpath = (\<lambda>s. s),
                 basename = posix_basename, join = posix_join, abspath = (\<lambda>s. s) \<rparr>"

type_synonym hyperlink = "string \<times> string"

section \<open>Document numbers\<close>

text \<open>
  \<open>process_pdfs\<close>, lines 492 to 501: the dictionary \<open>unique_filenames\<close> and the counter
  \<open>doc_number_counter\<close> are the state of the loop over \<open>existing_pdfs\<close>.
\<close>

fun pdfs_number_loop ::
  "pylib \<Rightarrow> hyperlink list \<Rightarrow> (string \<rightharpoonup> nat) \<times> nat \<Rightarrow> (string \<rightharpoonup> nat) \<times> nat" where
  "pdfs_number_loop lib [] st = st"
| "pdfs_number_loop lib ((_, pdf_filename) # rest) (unique_filenames, doc_number_counter) =
     (let filename = basename lib pdf_filename in
      if unique_filenames filename = None
      then pdfs_number_loop lib rest
             (unique_filenames(filename \<mapsto> doc_number_counter), doc_number_counter + 1)
      else pdfs_number_loop lib rest (unique_filenames, doc_number_counter))"

definition pdfs_unique_filenames :: "pylib \<Rightarrow> hyperlink list \<Rightarrow> (string \<rightharpoonup> nat)" where
  "pdfs_unique_filenames lib existing_pdfs =
     fst (pdfs_number_loop lib existing_pdfs (Map.empty, 1))"

text \<open>\<open>save_links_to_xlsx\<close>, lines 366 to 375: the same loop, written a second time.\<close>

fun xlsx_number_loop ::
  "pylib \<Rightarrow> hyperlink list \<Rightarrow> (string \<rightharpoonup> nat) \<times> nat \<Rightarrow> (string \<rightharpoonup> nat) \<times> nat" where
  "xlsx_number_loop lib [] st = st"
| "xlsx_number_loop lib ((_, url) # rest) (unique_filenames, doc_number_counter) =
     (let filename = basename lib url in
      if unique_filenames filename = None
      then xlsx_number_loop lib rest
             (unique_filenames(filename \<mapsto> doc_number_counter), doc_number_counter + 1)
      else xlsx_number_loop lib rest (unique_filenames, doc_number_counter))"

definition xlsx_unique_filenames :: "pylib \<Rightarrow> hyperlink list \<Rightarrow> (string \<rightharpoonup> nat)" where
  "xlsx_unique_filenames lib existing_pdfs =
     fst (xlsx_number_loop lib existing_pdfs (Map.empty, 1))"

text \<open>
  The basenames of a sequence in the order of their first occurrence: the list against
  which "first-encounter order" is stated.
\<close>

fun extend_seen :: "'a list \<Rightarrow> 'a list \<Rightarrow> 'a list" where
  "extend_seen seen [] = seen"
| "extend_seen seen (x # xs) =
     (if x \<in> set seen then extend_seen seen xs else extend_seen (seen @ [x]) xs)"

definition first_seen :: "'a list \<Rightarrow> 'a list" where
  "first_seen xs = extend_seen [] xs"

definition basenames :: "pylib \<Rightarrow> hyperlink list \<Rightarrow> string list" where
  "basenames lib links = map (\<lambda>link. basename lib (snd link)) links"

text \<open>
  The state the numbering loop maintains: \<open>seen\<close> lists the keys of the dictionary in the
  order in which they were inserted, the \<open>i\<close>-th of them (from 0) carries number \<open>i + 1\<close>, and
  the counter is the next number to hand out.
\<close>

definition numbered :: "('a \<rightharpoonup> nat) \<Rightarrow> nat \<Rightarrow> 'a list \<Rightarrow> bool" where
  "numbered m c seen \<longleftrightarrow>
     distinct seen \<and> c = length seen + 1 \<and> dom m = set seen \<and>
     (\<forall>i < length seen. m (seen ! i) = Some (i + 1))"

section \<open>Exceptions\<close>

text \<open>
  The exceptions that the modelled code can raise: a result is \<open>Inl\<close> of one of them, or
  \<open>Inr\<close> of the value returned.
\<close>

datatype py_error =
  KeyError | TypeError | FileNotFoundError | SameFileError | PermissionError | PdfReadError
  | IllegalCharacterError | OSError

section \<open>Link extraction\<close>

text \<open>
  What \<open>extract_hyperlinks\<close> reads of the parsed document: for each paragraph of
  \<open>doc.paragraphs\<close> its \<open>w:hyperlink\<close> elements in document order, for each element the
  \<open>text\<close> of its \<open>w:t\<close> runs and its relationship id, and the table \<open>doc.part.rels\<close> from ids
  to \<open>target_ref\<close>. The \<open>text\<close> of an element without content (\<open><w:t/>\<close>) is \<open>None\<close>, and
  \<open>hyperlink.get(...)\<close> is \<open>None\<close> when the attribute is absent.
\<close>

record hyperlink_elem =
  run_texts :: "string option list"
  rel_id :: "string option"

record document =
  paragraphs :: "hyperlink_elem list list"
  rels :: "string \<rightharpoonup> string"

text \<open>\<open>"".join(t.text for t in ...)\<close>: joining raises \<open>TypeError\<close> on an item that is \<open>None\<close>.\<close>

fun join_texts :: "string option list \<Rightarrow> py_error + string" where
  "join_texts [] = Inr []"
| "join_texts (None # rest) = Inl TypeError"
| "join_texts (Some t # rest) =
     (case join_texts rest of Inl err \<Rightarrow> Inl err | Inr s \<Rightarrow> Inr (t @ s))"

text \<open>Line 343: \<open>"".join(...) or "Unnamed Link"\<close>.\<close>

definition link_text_of :: "hyperlink_elem \<Rightarrow> py_error + string" where
  "link_text_of h =
     (case join_texts (run_texts h) of
        Inl err \<Rightarrow> Inl err
      | Inr joined \<Rightarrow> Inr (if joined = [] then ''Unnamed Link'' else joined))"

text \<open>
  Lines 342 to 348, the loop over the hyperlinks of one paragraph. The text is computed
  first, for every hyperlink element, whatever its target.
\<close>

fun hyperlink_loop ::
  "pylib \<Rightarrow> (string \<rightharpoonup> string) \<Rightarrow> hyperlink_elem list \<Rightarrow> hyperlink list \<Rightarrow>
   py_error + hyperlink list" where
  "hyperlink_loop lib rs [] hyperlinks = Inr hyperlinks"
| "hyperlink_loop lib rs (h # rest) hyperlinks =
     (case link_text_of h of
        Inl err \<Rightarrow> Inl err
      | Inr link_text \<Rightarrow>
          (case rel_id h of
             None \<Rightarrow> hyperlink_loop lib rs rest hyperlinks
           | Some r_id \<Rightarrow>
               (if r_id = [] then hyperlink_loop lib rs rest hyperlinks
                else case rs r_id of
                  None \<Rightarrow> hyperlink_loop lib rs rest hyperlinks
                | Some target_ref \<Rightarrow>
                    (let url = normpath lib (unquote lib (strip lib target_ref)) in
                     if endswith (lower url) ''.pdf''
                     then hyperlink_loop lib rs rest (hyperlinks @ [(link_text, url)])
                     else hyperlink_loop lib rs rest hyperlinks))))"

text \<open>Line 341, the loop over the paragraphs.\<close>

fun paragraph_loop ::
  "pylib \<Rightarrow> (string \<rightharpoonup> string) \<Rightarrow> hyperlink_elem list list \<Rightarrow> hyperlink list \<Rightarrow>
   py_error + hyperlink list" where
  "paragraph_loop lib rs [] hyperlinks = Inr hyperlinks"
| "paragraph_loop lib rs (para # rest) hyperlinks =
     (case hyperlink_loop lib rs para hyperlinks of
        Inl err \<Rightarrow> Inl err
      | Inr hyperlinks' \<Rightarrow> paragraph_loop lib rs rest hyperlinks')"

definition extract_hyperlinks :: "pylib \<Rightarrow> document \<Rightarrow> py_error + hyperlink list" where
  "extract_hyperlinks lib doc = paragraph_loop lib (rels doc) (paragraphs doc) []"

text \<open>
  The terms in which the extractor is specified: whether every run of a hyperlink element
  has a text, the display text, the decoded target (none when the element has no
  relationship id or the id is not in the table), and the test on the target.
\<close>

definition texts_present :: "hyperlink_elem \<Rightarrow> bool" where
  "texts_present h = (None \<notin> set (run_texts h))"

definition display_text :: "hyperlink_elem \<Rightarrow> string" where
  "display_text h =
     (let joined = concat (List.map_filter (\<lambda>t. t) (run_texts h))
      in if joined = [] then ''Unnamed Link'' else joined)"

definition decoded_target :: "pylib \<Rightarrow> document \<Rightarrow> hyperlink_elem \<Rightarrow> string option" where
  "decoded_target lib doc h =
     (case rel_id h of
        None \<Rightarrow> None
      | Some r \<Rightarrow>
          if r = [] then None
          else map_option (\<lambda>t. normpath lib (unquote lib (strip lib t))) (rels doc r))"

definition is_pdf_target :: "string \<Rightarrow> bool" where
  "is_pdf_target t = endswith (lower t) ''.pdf''"

definition has_pdf_target :: "pylib \<Rightarrow> document \<Rightarrow> hyperlink_elem \<Rightarrow> bool" where
  "has_pdf_target lib doc h =
     (case decoded_target lib doc h of None \<Rightarrow> False | Some t \<Rightarrow> is_pdf_target t)"

definition link_of :: "pylib \<Rightarrow> document \<Rightarrow> hyperlink_elem \<Rightarrow> hyperlink" where
  "link_of lib doc h =
     (display_text h, case decoded_target lib doc h of None \<Rightarrow> [] | Some t \<Rightarrow> t)"

section \<open>Files\<close>

text \<open>
  A cover page carries the one string that \<open>create_cover_page\<close> draws, with its font. A PDF
  file is the list of its pages; any other file is a sequence of bytes that \<open>PdfReader\<close>
  rejects. The file system maps the paths of regular files to their contents.
\<close>

datatype font = Arabic | Helvetica_Bold | Times_Roman

record drawing =
  font_name :: font
  font_size :: nat
  drawn_text :: string

datatype page = CoverPage drawing | SourcePage nat

datatype content = PdfFile "page list" | OtherFile "nat list"

type_synonym fs = "string \<rightharpoonup> content"

text \<open>
  What the host decides: whether the \<open>bidi\<close> and \<open>arabic_reshaper\<close> packages were imported
  (line 41 to 46), what \<open>get_display(arabic_reshaper.reshape(s))\<close> returns (\<open>None\<close> when
  either raises), whether setting a font and drawing a string with it succeeds, whether
  a path can be opened for writing, and whether \<open>os.makedirs(folder, exist_ok=True)\<close>
  succeeds. A write happens in full or not at all.
\<close>

record env =
  ARABIC_SUPPORT :: bool
  reshape_display :: "string \<Rightarrow> string option"
  draws :: "font \<Rightarrow> string \<Rightarrow> bool"
  writable :: "string \<Rightarrow> bool"
  makedirs_ok :: "string \<Rightarrow> bool"

definition path_exists :: "fs \<Rightarrow> string \<Rightarrow> bool" where
  "path_exists files p = (files p \<noteq> None)"

text \<open>
  \<open>shutil.copy(src, dst)\<close> for a destination that names a file: it opens the source, refuses
  to copy a file onto itself, then opens the destination for writing.
\<close>

definition shutil_copy :: "env \<Rightarrow> fs \<Rightarrow> string \<Rightarrow> string \<Rightarrow> py_error + fs" where
  "shutil_copy e files src dst =
     (case files src of
        None \<Rightarrow> Inl FileNotFoundError
      | Some c \<Rightarrow>
          if src = dst then Inl SameFileError
          else if writable e dst then Inr (files(dst \<mapsto> c))
          else Inl PermissionError)"

text \<open>\<open>PdfReader(path).pages\<close>.\<close>

definition read_pdf :: "fs \<Rightarrow> string \<Rightarrow> py_error + page list" where
  "read_pdf files p =
     (case files p of
        None \<Rightarrow> Inl FileNotFoundError
      | Some (PdfFile pages) \<Rightarrow> Inr pages
      | Some (OtherFile _) \<Rightarrow> Inl PdfReadError)"

text \<open>Lines 544 and 545: \<open>open(dest_path, 'wb')\<close> and \<open>pdf_writer.write\<close>.\<close>

definition write_pdf :: "env \<Rightarrow> fs \<Rightarrow> string \<Rightarrow> page list \<Rightarrow> py_error + fs" where
  "write_pdf e files p pages =
     (if writable e p then Inr (files(p \<mapsto> PdfFile pages)) else Inl PermissionError)"

section \<open>The reconciler\<close>

text \<open>\<open>process_word_file\<close>, lines 279 to 287.\<close>

fun reconcile_loop ::
  "pylib \<Rightarrow> fs \<Rightarrow> string \<Rightarrow> hyperlink list \<Rightarrow> hyperlink list \<times> hyperlink list \<Rightarrow>
   hyperlink list \<times> hyperlink list" where
  "reconcile_loop lib files central_pdf_folder [] acc = acc"
| "reconcile_loop lib files central_pdf_folder ((link_text, pdf_filename) # rest)
     (existing_pdfs, missing_pdfs) =
     (let pdf_path = join lib central_pdf_folder (basename lib pdf_filename) in
      if path_exists files pdf_path
      then reconcile_loop lib files central_pdf_folder rest
             (existing_pdfs @ [(link_text, pdf_filename)], missing_pdfs)
      else reconcile_loop lib files central_pdf_folder rest
             (existing_pdfs, missing_pdfs @ [(link_text, pdf_filename)]))"

definition reconcile ::
  "pylib \<Rightarrow> fs \<Rightarrow> string \<Rightarrow> hyperlink list \<Rightarrow> hyperlink list \<times> hyperlink list" where
  "reconcile lib files central_pdf_folder hyperlinks =
     reconcile_loop lib files central_pdf_folder hyperlinks ([], [])"

text \<open>The predicate that decides membership: the referenced file exists in the folder.\<close>

definition resolved :: "pylib \<Rightarrow> fs \<Rightarrow> string \<Rightarrow> hyperlink \<Rightarrow> bool" where
  "resolved lib files central_pdf_folder link =
     path_exists files (join lib central_pdf_folder (basename lib (snd link)))"

section \<open>The PDF transformer\<close>

text \<open>
  \<open>create_cover_page\<close>, lines 441 to 486. The arguments \<open>link_text\<close> and \<open>pdf_filename\<close> are
  not used by the body. The page holds the string of the one \<open>drawCentredString\<close> call that
  succeeds; drawing the number in the built-in font Helvetica-Bold is the last resort.
\<close>

definition create_cover_page :: "env \<Rightarrow> nat \<Rightarrow> string \<Rightarrow> string \<Rightarrow> drawing" where
  "create_cover_page e doc_number link_text pdf_filename =
     (let formatted_number = str_nat doc_number;
          arabic_text = label @ '' '' @ formatted_number;
          fallback = \<lparr> font_name = Helvetica_Bold, font_size = 36,
                       drawn_text = formatted_number \<rparr>
      in if ARABIC_SUPPORT e then
           (case reshape_display e arabic_text of
              None \<Rightarrow> fallback
            | Some bidi_text \<Rightarrow>
                if draws e Arabic bidi_text
                then \<lparr> font_name = Arabic, font_size = 24, drawn_text = bidi_text \<rparr>
                else fallback)
         else if draws e Times_Roman arabic_text
              then \<lparr> font_name = Times_Roman, font_size = 24, drawn_text = arabic_text \<rparr>
              else fallback)"

record options =
  enable_renaming :: bool
  add_cover_page :: bool

text \<open>Lines 511 to 515.\<close>

definition pdfs_new_name :: "options \<Rightarrow> nat \<Rightarrow> string \<Rightarrow> string" where
  "pdfs_new_name opts doc_number filename =
     (if enable_renaming opts then label @ '' '' @ fmt_03d doc_number @ '' - '' @ filename
      else filename)"

text \<open>The body of the \<open>try\<close>, lines 527 to 548.\<close>

definition transform ::
  "env \<Rightarrow> options \<Rightarrow> fs \<Rightarrow> nat \<Rightarrow> string \<Rightarrow> string \<Rightarrow> string \<Rightarrow> string \<Rightarrow> py_error + fs" where
  "transform e opts files doc_number link_text pdf_filename source_path dest_path =
     (if add_cover_page opts then
        (let cover = create_cover_page e doc_number link_text pdf_filename in
         case read_pdf files source_path of
           Inl err \<Rightarrow> Inl err
         | Inr pages \<Rightarrow> write_pdf e files dest_path (CoverPage cover # pages))
      else shutil_copy e files source_path dest_path)"

text \<open>
  What the loop of \<open>process_pdfs\<close> changes: the files, the status line (one
  \<open>status_var.set\<close> per item, line 523) and the records of \<open>logging.error\<close> (line 550).
\<close>

record world =
  files :: fs
  status :: "string list"
  errors :: "(string \<times> py_error) list"

text \<open>
  One iteration, lines 507 to 555. The lookup \<open>unique_filenames[filename]\<close> stands outside
  the \<open>try\<close>: a missing key would end the whole call.
\<close>

definition process_item ::
  "pylib \<Rightarrow> env \<Rightarrow> options \<Rightarrow> (string \<rightharpoonup> nat) \<Rightarrow> string \<Rightarrow> string \<Rightarrow> nat \<Rightarrow> nat \<Rightarrow>
   hyperlink \<Rightarrow> world \<Rightarrow> py_error + world" where
  "process_item lib e opts unique_filenames central_pdf_folder destination_folder
     total_files processed_count link w =
     (let link_text = fst link; pdf_filename = snd link;
          filename = basename lib pdf_filename in
      case unique_filenames filename of
        None \<Rightarrow> Inl KeyError
      | Some doc_number \<Rightarrow>
          (let source_path = join lib central_pdf_folder filename;
               new_name = pdfs_new_name opts doc_number filename;
               dest_path = join lib destination_folder new_name;
               w1 = w\<lparr> status := status w @
                      [''Processing '' @ str_nat processed_count @ ''/'' @ str_nat total_files
                         @ '': '' @ new_name] \<rparr>
           in case transform e opts (files w1) doc_number link_text pdf_filename
                     source_path dest_path of
                Inr files' \<Rightarrow> Inr (w1\<lparr> files := files' \<rparr>)
              | Inl err \<Rightarrow>
                  (let w2 = w1\<lparr> errors := errors w1 @ [(source_path, err)] \<rparr>
                   in case shutil_copy e (files w2) source_path dest_path of
                        Inr files' \<Rightarrow> Inr (w2\<lparr> files := files' \<rparr>)
                      | Inl _ \<Rightarrow> Inr w2)))"

fun process_loop ::
  "pylib \<Rightarrow> env \<Rightarrow> options \<Rightarrow> (string \<rightharpoonup> nat) \<Rightarrow> string \<Rightarrow> string \<Rightarrow> nat \<Rightarrow> nat \<Rightarrow>
   hyperlink list \<Rightarrow> world \<Rightarrow> py_error + world" where
  "process_loop lib e opts uf central dest total_files processed_count [] w = Inr w"
| "process_loop lib e opts uf central dest total_files processed_count (link # rest) w =
     (case process_item lib e opts uf central dest total_files (processed_count + 1) link w of
        Inl err \<Rightarrow> Inl err
      | Inr w' \<Rightarrow>
          process_loop lib e opts uf central dest total_files (processed_count + 1) rest w')"

text \<open>
  \<open>process_pdfs\<close>, lines 488 to 555. Folders are not files of the model; \<open>os.makedirs\<close>
  (line 490) stands outside every \<open>try\<close>, so its failure ends the call before the first
  item. The calls of lines 522 to 524 belong to the window and only display the progress.
\<close>

definition process_pdfs ::
  "pylib \<Rightarrow> env \<Rightarrow> options \<Rightarrow> hyperlink list \<Rightarrow> string \<Rightarrow> string \<Rightarrow> world \<Rightarrow> py_error + world" where
  "process_pdfs lib e opts existing_pdfs central_pdf_folder destination_folder w =
     (if makedirs_ok e destination_folder
      then process_loop lib e opts (pdfs_unique_filenames lib existing_pdfs)
             central_pdf_folder destination_folder (length existing_pdfs) 0 existing_pdfs w
      else Inl OSError)"

text \<open>The paths of an item, as lines 507 to 517 compute them.\<close>

definition source_path_of :: "pylib \<Rightarrow> string \<Rightarrow> hyperlink \<Rightarrow> string" where
  "source_path_of lib central_pdf_folder link =
     join lib central_pdf_folder (basename lib (snd link))"

definition dest_name_of :: "pylib \<Rightarrow> options \<Rightarrow> (string \<rightharpoonup> nat) \<Rightarrow> hyperlink \<Rightarrow> string" where
  "dest_name_of lib opts unique_filenames link =
     (case unique_filenames (basename lib (snd link)) of
        None \<Rightarrow> []
      | Some doc_number \<Rightarrow> pdfs_new_name opts doc_number (basename lib (snd link)))"

definition dest_path_of ::
  "pylib \<Rightarrow> options \<Rightarrow> (string \<rightharpoonup> nat) \<Rightarrow> string \<Rightarrow> hyperlink \<Rightarrow> string" where
  "dest_path_of lib opts unique_filenames destination_folder link =
     join lib destination_folder (dest_name_of lib opts unique_filenames link)"

section \<open>The report writer\<close>

text \<open>
  A row of the sheet: the four cells that \<open>sheet1.append\<close> writes and the hyperlink that
  line 405 attaches to the cell in the second column.
\<close>

record row =
  link_text_cell :: string
  pdf_link_cell :: string
  doc_number_cell :: string
  status_cell :: string
  hyperlink_cell :: "string option"

text \<open>A dictionary built from key-value pairs in order: a later pair replaces an earlier one.\<close>

definition dict_of :: "('k \<times> 'v) list \<Rightarrow> ('k \<rightharpoonup> 'v)" where
  "dict_of kvs = fold (\<lambda>kv d. d(fst kv \<mapsto> snd kv)) kvs Map.empty"

text \<open>Lines 377 to 388. The lookup \<open>unique_filenames[filename]\<close> raises on a missing key.\<close>

fun renamed_loop ::
  "pylib \<Rightarrow> (string \<rightharpoonup> nat) \<Rightarrow> hyperlink list \<Rightarrow> (string \<rightharpoonup> string) \<times> (string \<rightharpoonup> string) \<Rightarrow>
   py_error + ((string \<rightharpoonup> string) \<times> (string \<rightharpoonup> string))" where
  "renamed_loop lib unique_filenames [] st = Inr st"
| "renamed_loop lib unique_filenames ((_, url) # rest) (doc_number_dict, renamed_files) =
     (let filename = basename lib url in
      case unique_filenames filename of
        None \<Rightarrow> Inl KeyError
      | Some doc_number \<Rightarrow>
          renamed_loop lib unique_filenames rest
            (doc_number_dict(url \<mapsto> label @ '' '' @ fmt_03d doc_number),
             renamed_files(url \<mapsto> label @ '' '' @ fmt_03d doc_number @ '' - '' @ filename)))"

text \<open>The body of the loop at lines 391 to 406: the row of one hyperlink.\<close>

definition row_of ::
  "pylib \<Rightarrow> (string \<rightharpoonup> string) \<Rightarrow> (string \<rightharpoonup> string) \<Rightarrow> (string \<rightharpoonup> string) \<Rightarrow>
   (string \<rightharpoonup> string) \<Rightarrow> string \<Rightarrow> hyperlink \<Rightarrow> row" where
  "row_of lib existing_dict missing_dict doc_number_dict renamed_files destination_folder link =
     (let link_text = fst link; url = snd link;
          status = (case existing_dict url of
                      Some s \<Rightarrow> s
                    | None \<Rightarrow> (case missing_dict url of Some s \<Rightarrow> s | None \<Rightarrow> ''Unknown''));
          doc_number = (case doc_number_dict url of Some d \<Rightarrow> d | None \<Rightarrow> []);
          filename = basename lib url
      in \<lparr> link_text_cell = link_text, pdf_link_cell = filename, doc_number_cell = doc_number,
           status_cell = status,
           hyperlink_cell =
             (if status = ''Found'' then
                (let new_filename = (case renamed_files url of Some n \<Rightarrow> n | None \<Rightarrow> filename);
                     local_path = abspath lib (join lib destination_folder new_filename)
                 in Some (''file:///'' @ replace_backslash local_path))
              else None) \<rparr>)"

text \<open>
  What the spreadsheet library does with a string that becomes a cell value
  (\<open>check_string\<close>): it keeps the first 32767 characters and raises
  \<open>IllegalCharacterError\<close> when one of them is a control character other than tab, line
  feed and carriage return. A character is counted by its first byte: the bytes
  \<open>0x80\<close> to \<open>0xBF\<close> continue a character.
\<close>

definition illegal_char :: "char \<Rightarrow> bool" where
  "illegal_char c =
     (let n = (of_char c :: nat) in n \<le> 8 \<or> n = 11 \<or> n = 12 \<or> (14 \<le> n \<and> n \<le> 31))"

definition continuation_byte :: "char \<Rightarrow> bool" where
  "continuation_byte c = (let n = (of_char c :: nat) in 128 \<le> n \<and> n < 192)"

fun take_chars :: "nat \<Rightarrow> string \<Rightarrow> string" where
  "take_chars n [] = []"
| "take_chars n (c # cs) =
     (if continuation_byte c then c # take_chars n cs
      else if n = 0 then []
      else c # take_chars (n - 1) cs)"

definition check_string :: "string \<Rightarrow> py_error + string" where
  "check_string s =
     (let v = take_chars 32767 s
      in if list_ex illegal_char v then Inl IllegalCharacterError else Inr v)"

text \<open>
  \<open>sheet1.append\<close> of the four values of a row (line 397): each value is checked in turn.
  The hyperlink is attached afterwards (lines 400 to 406), to a row that was appended.
\<close>

definition append_row :: "row \<Rightarrow> py_error + row" where
  "append_row r =
     (case check_string (link_text_cell r) of
        Inl err \<Rightarrow> Inl err
      | Inr a \<Rightarrow>
     (case check_string (pdf_link_cell r) of
        Inl err \<Rightarrow> Inl err
      | Inr b \<Rightarrow>
     (case check_string (doc_number_cell r) of
        Inl err \<Rightarrow> Inl err
      | Inr c \<Rightarrow>
     (case check_string (status_cell r) of
        Inl err \<Rightarrow> Inl err
      | Inr d \<Rightarrow>
          Inr (r\<lparr> link_text_cell := a, pdf_link_cell := b, doc_number_cell := c,
                  status_cell := d \<rparr>)))))"

fun rows_loop ::
  "pylib \<Rightarrow> (string \<rightharpoonup> string) \<Rightarrow> (string \<rightharpoonup> string) \<Rightarrow> (string \<rightharpoonup> string) \<Rightarrow>
   (string \<rightharpoonup> string) \<Rightarrow> string \<Rightarrow> hyperlink list \<Rightarrow> row list \<Rightarrow> py_error + row list" where
  "rows_loop lib ed md dd rf dest [] sheet1 = Inr sheet1"
| "rows_loop lib ed md dd rf dest (link # rest) sheet1 =
     (case append_row (row_of lib ed md dd rf dest link) of
        Inl err \<Rightarrow> Inl err
      | Inr r \<Rightarrow> rows_loop lib ed md dd rf dest rest (sheet1 @ [r]))"

text \<open>The header of line 360; its four strings pass the check unchanged.\<close>

definition header_row :: row where
  "header_row = \<lparr> link_text_cell = ''Link Text'', pdf_link_cell = ''PDF Link'',
                  doc_number_cell = ''Document Number'', status_cell = ''Status'',
                  hyperlink_cell = None \<rparr>"

text \<open>
  \<open>save_links_to_xlsx\<close>, lines 351 to 439: the sheet of the workbook that is saved, header
  first. The fills and the column widths of lines 408 to 437 change no cell value;
  \<open>workbook.save\<close> (line 439) writes the file or raises.
\<close>

definition save_links_to_xlsx ::
  "pylib \<Rightarrow> env \<Rightarrow> hyperlink list \<Rightarrow> hyperlink list \<Rightarrow> hyperlink list \<Rightarrow> string \<Rightarrow> string \<Rightarrow>
   py_error + row list" where
  "save_links_to_xlsx lib e all_hyperlinks existing_pdfs missing_pdfs xlsx_file_path
     destination_folder =
     (let existing_dict = dict_of (map (\<lambda>link. (snd link, ''Found'')) existing_pdfs);
          missing_dict = dict_of (map (\<lambda>link. (snd link, ''Missing'')) missing_pdfs);
          unique_filenames = xlsx_unique_filenames lib existing_pdfs
      in case renamed_loop lib unique_filenames existing_pdfs (Map.empty, Map.empty) of
           Inl err \<Rightarrow> Inl err
         | Inr (doc_number_dict, renamed_files) \<Rightarrow>
             (case rows_loop lib existing_dict missing_dict doc_number_dict renamed_files
                     destination_folder all_hyperlinks [header_row] of
                Inl err \<Rightarrow> Inl err
              | Inr sheet1 \<Rightarrow>
                  if writable e xlsx_file_path then Inr sheet1 else Inl PermissionError))"

text \<open>
  The file name that the report writer links a hyperlink to (line 402), for a hyperlink of
  \<open>existing_pdfs\<close>.
\<close>

definition xlsx_new_filename :: "pylib \<Rightarrow> hyperlink list \<Rightarrow> hyperlink \<Rightarrow> string" where
  "xlsx_new_filename lib existing_pdfs link =
     (case renamed_loop lib (xlsx_unique_filenames lib existing_pdfs) existing_pdfs
             (Map.empty, Map.empty) of
        Inl _ \<Rightarrow> []
      | Inr (doc_number_dict, renamed_files) \<Rightarrow>
          (case renamed_files (snd link) of
             Some n \<Rightarrow> n
           | None \<Rightarrow> basename lib (snd link)))"

section \<open>Sample inputs\<close>

text \<open>
  A document with two paragraphs and four hyperlink elements: a link to \<open>docs/a.PDF\<close> whose
  text is split over two runs, a link to \<open>b.pdf\<close> without runs, a link to a web page, and an
  anchor without relationship id. In the second document the link to \<open>b.pdf\<close> has one run,
  and that run is empty (\<open><w:t/>\<close>).
\<close>

definition sample_doc :: document where
  "sample_doc =
     \<lparr> paragraphs =
         [[\<lparr> run_texts = [Some ''Re'', Some ''port''], rel_id = Some ''rId1'' \<rparr>,
           \<lparr> run_texts = [], rel_id = Some ''rId2'' \<rparr>],
          [\<lparr> run_texts = [Some ''Site''], rel_id = Some ''rId3'' \<rparr>,
           \<lparr> run_texts = [Some ''Top''], rel_id = None \<rparr>]],
       rels = [''rId1'' \<mapsto> ''docs/a.PDF'', ''rId2'' \<mapsto> ''b.pdf'',
               ''rId3'' \<mapsto> ''http://example.org/page''] \<rparr>"

definition empty_run_doc :: document where
  "empty_run_doc =
     \<lparr> paragraphs = [[\<lparr> run_texts = [None], rel_id = Some ''rId2'' \<rparr>]],
       rels = [''rId2'' \<mapsto> ''b.pdf''] \<rparr>"


definition sample_files :: fs where
  "sample_files = [''/pdfs/a.pdf'' \<mapsto> PdfFile [SourcePage 0, SourcePage 1],
                   ''/pdfs/bad.pdf'' \<mapsto> OtherFile [37, 80]]"


text \<open>
  A host without the packages for Arabic text, on which every drawing, every write and
  the creation of folders succeed; the same host when drawing in Times-Roman fails; the
  two options; and the state before a run.
\<close>

definition sample_env :: env where
  "sample_env = \<lparr> ARABIC_SUPPORT = False, reshape_display = (\<lambda>s. None),
                  draws = (\<lambda>f s. True), writable = (\<lambda>p. True), makedirs_ok = (\<lambda>p. True) \<rparr>"

definition no_times_env :: env where
  "no_times_env = \<lparr> ARABIC_SUPPORT = False, reshape_display = (\<lambda>s. None),
                    draws = (\<lambda>f s. f \<noteq> Times_Roman), writable = (\<lambda>p. True),
                    makedirs_ok = (\<lambda>p. True) \<rparr>"

text \<open>A host with the packages for Arabic text, whose shaping leaves a string as it is.\<close>

definition arabic_env :: env where
  "arabic_env = \<lparr> ARABIC_SUPPORT = True, reshape_display = (\<lambda>s. Some s),
                  draws = (\<lambda>f s. True), writable = (\<lambda>p. True),
                  makedirs_ok = (\<lambda>p. True) \<rparr>"

definition cover_only :: options where
  "cover_only = \<lparr> enable_renaming = False, add_cover_page = True \<rparr>"

definition rename_and_cover :: options where
  "rename_and_cover = \<lparr> enable_renaming = True, add_cover_page = True \<rparr>"

definition sample_world :: world where
  "sample_world = \<lparr> files = sample_files, status = [], errors = [] \<rparr>"

section \<open>The numbering\<close>

lemma numbered_fresh: "numbered m c seen \<Longrightarrow> m x = None \<longleftrightarrow> x \<notin> set seen"
  unfolding numbered_def by (metis domIff)

lemma numbered_snoc:
  assumes "numbered m c seen" "m x = None"
  shows "numbered (m(x \<mapsto> c)) (c + 1) (seen @ [x])"
proof -
  from assms have nx: "x \<notin> set seen" by (simp add: numbered_fresh)
  have "\<forall>i < length (seen @ [x]). (m(x \<mapsto> c)) ((seen @ [x]) ! i) = Some (i + 1)"
  proof (intro allI impI)
    fix i assume "i < length (seen @ [x])"
    then consider "i < length seen" | "i = length seen" by force
    then show "(m(x \<mapsto> c)) ((seen @ [x]) ! i) = Some (i + 1)"
    proof cases
      case 1
      with nx have "seen ! i \<noteq> x" by (metis nth_mem)
      with 1 assms(1) show ?thesis by (simp add: nth_append numbered_def)
    next
      case 2
      with assms(1) show ?thesis by (simp add: numbered_def)
    qed
  qed
  with assms(1) nx show ?thesis by (simp add: numbered_def)
qed

lemma pdfs_number_loop_numbered:
  "numbered m c seen \<Longrightarrow> pdfs_number_loop lib links (m, c) = (m', c') \<Longrightarrow>
   numbered m' c' (extend_seen seen (basenames lib links))"
proof (induction links arbitrary: m c seen)
  case Nil
  then show ?case by (simp add: basenames_def)
next
  case (Cons link links)
  obtain t u where link: "link = (t, u)" by (cases link)
  define b where "b = basename lib u"
  have bs: "basenames lib (link # links) = b # basenames lib links"
    by (simp add: basenames_def link b_def)
  show ?case
  proof (cases "m b = None")
    case True
    with Cons.prems(1) have nx: "b \<notin> set seen" by (simp add: numbered_fresh)
    have step: "pdfs_number_loop lib (link # links) (m, c) =
                pdfs_number_loop lib links (m(b \<mapsto> c), c + 1)"
      using True unfolding link b_def by (simp add: Let_def)
    have "numbered (m(b \<mapsto> c)) (c + 1) (seen @ [b])"
      using Cons.prems(1) True by (rule numbered_snoc)
    moreover have "pdfs_number_loop lib links (m(b \<mapsto> c), c + 1) = (m', c')"
      using Cons.prems(2) step by simp
    ultimately have "numbered m' c' (extend_seen (seen @ [b]) (basenames lib links))"
      by (rule Cons.IH)
    with nx show ?thesis by (simp add: bs)
  next
    case False
    with Cons.prems(1) have nx: "b \<in> set seen" by (simp add: numbered_fresh)
    have step: "pdfs_number_loop lib (link # links) (m, c) = pdfs_number_loop lib links (m, c)"
      using False unfolding link b_def by (auto simp add: Let_def)
    have "pdfs_number_loop lib links (m, c) = (m', c')"
      using Cons.prems(2) step by simp
    with Cons.prems(1) have "numbered m' c' (extend_seen seen (basenames lib links))"
      by (rule Cons.IH)
    with nx show ?thesis by (simp add: bs)
  qed
qed

lemma set_extend_seen: "set (extend_seen seen xs) = set seen \<union> set xs"
  by (induction xs arbitrary: seen) auto

lemma distinct_extend_seen: "distinct seen \<Longrightarrow> distinct (extend_seen seen xs)"
  by (induction xs arbitrary: seen) auto

lemma numbered_empty: "numbered Map.empty 1 []"
  by (simp add: numbered_def)

lemma pdfs_unique_filenames_numbered:
  "\<exists>c. numbered (pdfs_unique_filenames lib links) c (first_seen (basenames lib links))"
proof -
  obtain m' c' where r: "pdfs_number_loop lib links (Map.empty, 1) = (m', c')" by force
  have "numbered m' c' (first_seen (basenames lib links))"
    unfolding first_seen_def using numbered_empty r by (rule pdfs_number_loop_numbered)
  moreover have "pdfs_unique_filenames lib links = m'"
    unfolding pdfs_unique_filenames_def r by simp
  ultimately show ?thesis by blast
qed

lemma xlsx_number_loop_eq: "xlsx_number_loop lib links st = pdfs_number_loop lib links st"
  by (induction lib links st rule: pdfs_number_loop.induct) (simp_all add: Let_def)

text \<open>
  C3. The numbering of \<open>process_pdfs\<close> maps exactly the basenames of the resolved sequence;
  the basename that is the \<open>i\<close>-th to be encountered for the first time (counting from 0)
  gets number \<open>i + 1\<close>; and two resolved hyperlinks get the same number if and only if
  their basenames are equal.
\<close>

theorem document_numbers_first_encounter:
  "distinct (first_seen (basenames lib existing_pdfs))
   \<and> set (first_seen (basenames lib existing_pdfs)) = set (basenames lib existing_pdfs)
   \<and> dom (pdfs_unique_filenames lib existing_pdfs) = set (basenames lib existing_pdfs)
   \<and> (\<forall>i < length (first_seen (basenames lib existing_pdfs)).
         pdfs_unique_filenames lib existing_pdfs (first_seen (basenames lib existing_pdfs) ! i)
           = Some (i + 1))
   \<and> (\<forall>a \<in> set existing_pdfs. \<forall>b \<in> set existing_pdfs.
         (pdfs_unique_filenames lib existing_pdfs (basename lib (snd a))
            = pdfs_unique_filenames lib existing_pdfs (basename lib (snd b)))
         = (basename lib (snd a) = basename lib (snd b)))"
proof -
  define m where "m = pdfs_unique_filenames lib existing_pdfs"
  define order where "order = first_seen (basenames lib existing_pdfs)"
  have "\<exists>c. numbered m c order"
    unfolding m_def order_def by (rule pdfs_unique_filenames_numbered)
  then obtain c where n: "numbered m c order" ..
  from n have d1: "distinct order" and d2: "dom m = set order"
    and d3: "\<forall>i < length order. m (order ! i) = Some (i + 1)"
    unfolding numbered_def by blast+
  have s: "set order = set (basenames lib existing_pdfs)"
    unfolding order_def first_seen_def by (simp add: set_extend_seen)
  from d2 s have d2': "dom m = set (basenames lib existing_pdfs)" by (rule trans)
  have inj: "x = y" if x: "x \<in> set order" and y: "y \<in> set order" and eq: "m x = m y" for x y
  proof -
    from x obtain i where i: "i < length order" "order ! i = x"
      unfolding in_set_conv_nth by blast
    from y obtain j where j: "j < length order" "order ! j = y"
      unfolding in_set_conv_nth by blast
    from d3 i(1) have "m (order ! i) = Some (i + 1)" by blast
    then have mx: "m x = Some (i + 1)" unfolding i(2) .
    from d3 j(1) have "m (order ! j) = Some (j + 1)" by blast
    then have my: "m y = Some (j + 1)" unfolding j(2) .
    from eq mx my have "i = j" by simp
    with i(2) j(2) show ?thesis by blast
  qed
  have same: "\<forall>a \<in> set existing_pdfs. \<forall>b \<in> set existing_pdfs.
      (m (basename lib (snd a)) = m (basename lib (snd b)))
      = (basename lib (snd a) = basename lib (snd b))"
  proof (intro ballI)
    fix a b assume a: "a \<in> set existing_pdfs" and b: "b \<in> set existing_pdfs"
    from a have "basename lib (snd a) \<in> set (basenames lib existing_pdfs)"
      unfolding basenames_def by simp
    then have ia: "basename lib (snd a) \<in> set order" unfolding s .
    from b have "basename lib (snd b) \<in> set (basenames lib existing_pdfs)"
      unfolding basenames_def by simp
    then have ib: "basename lib (snd b) \<in> set order" unfolding s .
    show "(m (basename lib (snd a)) = m (basename lib (snd b)))
        = (basename lib (snd a) = basename lib (snd b))"
    proof
      assume "m (basename lib (snd a)) = m (basename lib (snd b))"
      with ia ib show "basename lib (snd a) = basename lib (snd b)" by (rule inj)
    next
      assume "basename lib (snd a) = basename lib (snd b)"
      then show "m (basename lib (snd a)) = m (basename lib (snd b))" by simp
    qed
  qed
  show ?thesis
    unfolding m_def [symmetric] order_def [symmetric]
    by (rule conjI [OF d1 conjI [OF s conjI [OF d2' conjI [OF d3 same]]]])
qed

lemma sample_basenames:
  "basenames posix_lib [(''A'', ''x/a.pdf''), (''B'', ''b.pdf''), (''C'', ''y/a.pdf'')]
     = [''a.pdf'', ''b.pdf'', ''a.pdf'']"
  by (simp add: basenames_def posix_lib_def posix_basename_def)

lemma sample_first_seen:
  "first_seen (basenames posix_lib [(''A'', ''x/a.pdf''), (''B'', ''b.pdf''), (''C'', ''y/a.pdf'')])
     = [''a.pdf'', ''b.pdf'']"
  by (simp add: sample_basenames first_seen_def)

theorem document_numbers_first_encounter_witness:
  "first_seen (basenames posix_lib [(''A'', ''x/a.pdf''), (''B'', ''b.pdf''), (''C'', ''y/a.pdf'')])
     = [''a.pdf'', ''b.pdf'']
   \<and> pdfs_unique_filenames posix_lib
        [(''A'', ''x/a.pdf''), (''B'', ''b.pdf''), (''C'', ''y/a.pdf'')] ''a.pdf'' = Some 1
   \<and> pdfs_unique_filenames posix_lib
        [(''A'', ''x/a.pdf''), (''B'', ''b.pdf''), (''C'', ''y/a.pdf'')] ''b.pdf'' = Some 2
   \<and> dom (pdfs_unique_filenames posix_lib
        [(''A'', ''x/a.pdf''), (''B'', ''b.pdf''), (''C'', ''y/a.pdf'')]) = {''a.pdf'', ''b.pdf''}"
proof -
  let ?links = "[(''A'', ''x/a.pdf''), (''B'', ''b.pdf''), (''C'', ''y/a.pdf'')]"
  let ?m = "pdfs_unique_filenames posix_lib ?links"
  note t = document_numbers_first_encounter [of posix_lib ?links]
  note t_dom = t [THEN conjunct2, THEN conjunct2, THEN conjunct1]
  note t_nth = t [THEN conjunct2, THEN conjunct2, THEN conjunct2, THEN conjunct1, rule_format]
  have d: "dom ?m = {''a.pdf'', ''b.pdf''}"
    using t_dom unfolding sample_basenames by (simp add: insert_commute)
  have n0: "?m ''a.pdf'' = Some 1"
    using t_nth [of 0] unfolding sample_first_seen by simp
  have n1: "?m ''b.pdf'' = Some 2"
    using t_nth [of 1] unfolding sample_first_seen by simp
  show ?thesis
    by (intro conjI sample_first_seen n0 n1 d)
qed


text \<open>
  C4. The numbering that the report writer recomputes is the numbering of the PDF
  transformer, for every resolved sequence.
\<close>

theorem report_numbering_agrees:
  "xlsx_unique_filenames lib existing_pdfs = pdfs_unique_filenames lib existing_pdfs"
  by (simp add: xlsx_unique_filenames_def pdfs_unique_filenames_def xlsx_number_loop_eq)

theorem report_numbering_agrees_witness:
  "xlsx_unique_filenames posix_lib [(''A'', ''x/a.pdf''), (''B'', ''b.pdf''), (''C'', ''y/a.pdf'')]
     = pdfs_unique_filenames posix_lib [(''A'', ''x/a.pdf''), (''B'', ''b.pdf''), (''C'', ''y/a.pdf'')]"
  by (rule report_numbering_agrees)

section \<open>The reconciler partitions the hyperlinks\<close>

lemma reconcile_loop_filter:
  "reconcile_loop lib fls central hyperlinks (existing_pdfs, missing_pdfs) =
     (existing_pdfs @ filter (resolved lib fls central) hyperlinks,
      missing_pdfs @ filter (\<lambda>link. \<not> resolved lib fls central link) hyperlinks)"
proof (induction hyperlinks arbitrary: existing_pdfs missing_pdfs)
  case Nil
  show ?case by simp
next
  case (Cons link rest)
  obtain link_text pdf_filename where link: "link = (link_text, pdf_filename)"
    by (cases link)
  show ?case
  proof (cases "resolved lib fls central link")
    case True
    then have "path_exists fls (join lib central (basename lib pdf_filename))"
      unfolding resolved_def link by simp
    then have "reconcile_loop lib fls central (link # rest) (existing_pdfs, missing_pdfs) =
        reconcile_loop lib fls central rest (existing_pdfs @ [link], missing_pdfs)"
      unfolding link by simp
    also have "\<dots> = ((existing_pdfs @ [link]) @ filter (resolved lib fls central) rest,
        missing_pdfs @ filter (\<lambda>link. \<not> resolved lib fls central link) rest)"
      by (rule Cons.IH)
    finally show ?thesis using True by simp
  next
    case False
    then have "\<not> path_exists fls (join lib central (basename lib pdf_filename))"
      unfolding resolved_def link by simp
    then have "reconcile_loop lib fls central (link # rest) (existing_pdfs, missing_pdfs) =
        reconcile_loop lib fls central rest (existing_pdfs, missing_pdfs @ [link])"
      unfolding link by simp
    also have "\<dots> = (existing_pdfs @ filter (resolved lib fls central) rest,
        (missing_pdfs @ [link]) @ filter (\<lambda>link. \<not> resolved lib fls central link) rest)"
      by (rule Cons.IH)
    finally show ?thesis using False by simp
  qed
qed

lemma reconcile_filter:
  "reconcile lib fls central hyperlinks =
     (filter (resolved lib fls central) hyperlinks,
      filter (\<lambda>link. \<not> resolved lib fls central link) hyperlinks)"
  unfolding reconcile_def reconcile_loop_filter by simp

text \<open>
  C6. The reconciler returns the hyperlinks whose file exists in the source folder and
  those whose file does not, each in the order of the input; every occurrence of a
  hyperlink is in exactly one of the two sequences.
\<close>

theorem reconcile_partitions:
  "fst (reconcile lib fls central hyperlinks) = filter (resolved lib fls central) hyperlinks
   \<and> snd (reconcile lib fls central hyperlinks)
       = filter (\<lambda>link. \<not> resolved lib fls central link) hyperlinks
   \<and> mset (fst (reconcile lib fls central hyperlinks))
       + mset (snd (reconcile lib fls central hyperlinks)) = mset hyperlinks
   \<and> set (fst (reconcile lib fls central hyperlinks))
       \<inter> set (snd (reconcile lib fls central hyperlinks)) = {}
   \<and> subseq (fst (reconcile lib fls central hyperlinks)) hyperlinks
   \<and> subseq (snd (reconcile lib fls central hyperlinks)) hyperlinks"
proof -
  let ?P = "resolved lib fls central"
  have e: "fst (reconcile lib fls central hyperlinks) = filter ?P hyperlinks"
    unfolding reconcile_filter by simp
  have m: "snd (reconcile lib fls central hyperlinks) = filter (\<lambda>link. \<not> ?P link) hyperlinks"
    unfolding reconcile_filter by simp
  have u: "mset (filter ?P hyperlinks) + mset (filter (\<lambda>link. \<not> ?P link) hyperlinks)
      = mset hyperlinks"
    by simp
  have d: "set (filter ?P hyperlinks) \<inter> set (filter (\<lambda>link. \<not> ?P link) hyperlinks) = {}"
    by auto
  have s1: "subseq (filter ?P hyperlinks) hyperlinks" by simp
  have s2: "subseq (filter (\<lambda>link. \<not> ?P link) hyperlinks) hyperlinks" by simp
  show ?thesis unfolding e m
    by (rule conjI [OF refl conjI [OF refl conjI [OF u conjI [OF d conjI [OF s1 s2]]]]])
qed

lemma sample_reconcile:
  "reconcile posix_lib [''/pdfs/a.pdf'' \<mapsto> PdfFile [SourcePage 0]] ''/pdfs''
     [(''A'', ''docs/a.pdf''), (''B'', ''docs/b.pdf''), (''A again'', ''a.pdf'')]
   = ([(''A'', ''docs/a.pdf''), (''A again'', ''a.pdf'')], [(''B'', ''docs/b.pdf'')])"
  by (simp add: reconcile_def posix_lib_def posix_basename_def posix_join_def path_exists_def)

theorem reconcile_partitions_witness:
  "fst (reconcile posix_lib [''/pdfs/a.pdf'' \<mapsto> PdfFile [SourcePage 0]] ''/pdfs''
     [(''A'', ''docs/a.pdf''), (''B'', ''docs/b.pdf''), (''A again'', ''a.pdf'')])
     = [(''A'', ''docs/a.pdf''), (''A again'', ''a.pdf'')]
   \<and> filter (resolved posix_lib [''/pdfs/a.pdf'' \<mapsto> PdfFile [SourcePage 0]] ''/pdfs'')
       [(''A'', ''docs/a.pdf''), (''B'', ''docs/b.pdf''), (''A again'', ''a.pdf'')]
     = [(''A'', ''docs/a.pdf''), (''A again'', ''a.pdf'')]
   \<and> snd (reconcile posix_lib [''/pdfs/a.pdf'' \<mapsto> PdfFile [SourcePage 0]] ''/pdfs''
     [(''A'', ''docs/a.pdf''), (''B'', ''docs/b.pdf''), (''A again'', ''a.pdf'')])
     = [(''B'', ''docs/b.pdf'')]"
proof -
  let ?fs = "[''/pdfs/a.pdf'' \<mapsto> PdfFile [SourcePage 0]]"
  let ?hs = "[(''A'', ''docs/a.pdf''), (''B'', ''docs/b.pdf''), (''A again'', ''a.pdf'')]"
  note t = reconcile_partitions [of posix_lib ?fs "''/pdfs''" ?hs]
  have a: "fst (reconcile posix_lib ?fs ''/pdfs'' ?hs)
      = [(''A'', ''docs/a.pdf''), (''A again'', ''a.pdf'')]"
    unfolding sample_reconcile by simp
  have b: "snd (reconcile posix_lib ?fs ''/pdfs'' ?hs) = [(''B'', ''docs/b.pdf'')]"
    unfolding sample_reconcile by simp
  have c: "filter (resolved posix_lib ?fs ''/pdfs'') ?hs
      = [(''A'', ''docs/a.pdf''), (''A again'', ''a.pdf'')]"
    by (rule trans [OF t [THEN conjunct1, symmetric] a])
  show ?thesis by (rule conjI [OF a conjI [OF c b]])
qed

section \<open>The link extractor\<close>

lemma join_texts_present:
  "None \<notin> set ts \<Longrightarrow> join_texts ts = Inr (concat (List.map_filter (\<lambda>t. t) ts))"
proof (induction ts)
  case Nil
  show ?case by (simp add: List.map_filter_simps)
next
  case (Cons t ts)
  then obtain s where t: "t = Some s" by (cases t) auto
  from Cons have "join_texts ts = Inr (concat (List.map_filter (\<lambda>t. t) ts))" by simp
  then show ?case unfolding t by (simp add: List.map_filter_simps)
qed

lemma join_texts_none: "None \<in> set ts \<Longrightarrow> join_texts ts = Inl TypeError"
proof (induction ts)
  case Nil
  then show ?case by simp
next
  case (Cons t ts)
  show ?case
  proof (cases t)
    case None
    then show ?thesis by simp
  next
    case (Some s)
    with Cons.prems have "None \<in> set ts" by simp
    then have "join_texts ts = Inl TypeError" by (rule Cons.IH)
    then show ?thesis unfolding Some by simp
  qed
qed

lemma link_text_of_present: "texts_present h \<Longrightarrow> link_text_of h = Inr (display_text h)"
  unfolding texts_present_def link_text_of_def display_text_def
  by (simp add: join_texts_present Let_def)

lemma link_text_of_none: "\<not> texts_present h \<Longrightarrow> link_text_of h = Inl TypeError"
  unfolding texts_present_def link_text_of_def by (simp add: join_texts_none)

lemma hyperlink_loop_step:
  "texts_present h \<Longrightarrow>
   hyperlink_loop lib (rels doc) (h # rest) hyperlinks =
     hyperlink_loop lib (rels doc) rest
       (if has_pdf_target lib doc h then hyperlinks @ [link_of lib doc h] else hyperlinks)"
  by (simp add: link_text_of_present has_pdf_target_def decoded_target_def link_of_def
        is_pdf_target_def Let_def split: option.splits)

lemma hyperlink_loop_raises:
  "\<not> texts_present h \<Longrightarrow> hyperlink_loop lib rs (h # rest) hyperlinks = Inl TypeError"
  by (simp add: link_text_of_none)

lemma hyperlink_loop_filter:
  "\<forall>h \<in> set para. texts_present h \<Longrightarrow>
   hyperlink_loop lib (rels doc) para hyperlinks =
     Inr (hyperlinks @ map (link_of lib doc) (filter (has_pdf_target lib doc) para))"
proof (induction para arbitrary: hyperlinks)
  case Nil
  show ?case by simp
next
  case (Cons h rest)
  from Cons.prems have h: "texts_present h" and r: "\<forall>h \<in> set rest. texts_present h"
    by simp_all
  show ?case
    unfolding hyperlink_loop_step [OF h] Cons.IH [OF r] by simp
qed

lemma paragraph_loop_filter:
  "\<forall>h \<in> set (concat paras). texts_present h \<Longrightarrow>
   paragraph_loop lib (rels doc) paras hyperlinks =
     Inr (hyperlinks @ map (link_of lib doc) (filter (has_pdf_target lib doc) (concat paras)))"
proof (induction paras arbitrary: hyperlinks)
  case Nil
  show ?case by simp
next
  case (Cons para rest)
  from Cons.prems have p: "\<forall>h \<in> set para. texts_present h"
    and r: "\<forall>h \<in> set (concat rest). texts_present h"
    by simp_all
  have "paragraph_loop lib (rels doc) (para # rest) hyperlinks =
      paragraph_loop lib (rels doc) rest
        (hyperlinks @ map (link_of lib doc) (filter (has_pdf_target lib doc) para))"
    unfolding paragraph_loop.simps hyperlink_loop_filter [OF p] by simp
  also have "\<dots> = Inr ((hyperlinks @ map (link_of lib doc) (filter (has_pdf_target lib doc) para))
      @ map (link_of lib doc) (filter (has_pdf_target lib doc) (concat rest)))"
    by (rule Cons.IH [OF r])
  finally show ?case by simp
qed

text \<open>
  When every run of every hyperlink element has a text, the extractor returns, in
  document order and with duplicates, one pair for each element whose decoded target ends
  in \<open>.pdf\<close> after lowering, and for no other.
\<close>

lemma extract_hyperlinks_texts_present:
  "\<forall>h \<in> set (concat (paragraphs doc)). texts_present h \<Longrightarrow>
   extract_hyperlinks lib doc =
     Inr (map (link_of lib doc) (filter (has_pdf_target lib doc) (concat (paragraphs doc))))"
  unfolding extract_hyperlinks_def by (simp add: paragraph_loop_filter)

lemma lower_append: "lower (s @ t) = lower s @ lower t"
  by (simp add: lower_def)

lemma endswith_append: "endswith (s @ t) t"
  by (simp add: endswith_def)

lemma lower_upper_pdf: "lower ''.PDF'' = ''.pdf''"
  by code_simp

lemma is_pdf_target_upper: "is_pdf_target (s @ ''.PDF'')"
  unfolding is_pdf_target_def lower_append lower_upper_pdf by (rule endswith_append)

lemma sample_extract:
  "extract_hyperlinks posix_lib sample_doc =
     Inr [(''Report'', ''docs/a.PDF''), (''Unnamed Link'', ''b.pdf'')]"
  by code_simp

text \<open>
  C5. The claim fails on a document in which a run of a hyperlink is empty: the hyperlink
  element of \<open>empty_run_doc\<close> has the target \<open>b.pdf\<close>, which ends in \<open>.pdf\<close>, and the
  concatenation of its run texts is empty, so the claim puts \<open>(Unnamed Link, b.pdf)\<close> in
  the output; \<open>extract_hyperlinks\<close> raises \<open>TypeError\<close> instead and returns no output at
  all.
\<close>

theorem extract_hyperlinks_empty_run_raises:
  "extract_hyperlinks posix_lib empty_run_doc = Inl TypeError
   \<and> concat (paragraphs empty_run_doc) = [\<lparr> run_texts = [None], rel_id = Some ''rId2'' \<rparr>]
   \<and> decoded_target posix_lib empty_run_doc \<lparr> run_texts = [None], rel_id = Some ''rId2'' \<rparr>
       = Some ''b.pdf''
   \<and> is_pdf_target ''b.pdf''
   \<and> concat (List.map_filter (\<lambda>t. t) [None :: string option]) = []"
proof -
  have a: "extract_hyperlinks posix_lib empty_run_doc = Inl TypeError" by code_simp
  have b: "concat (paragraphs empty_run_doc)
      = [\<lparr> run_texts = [None], rel_id = Some ''rId2'' \<rparr>]"
    by (simp add: empty_run_doc_def)
  have c: "decoded_target posix_lib empty_run_doc
      \<lparr> run_texts = [None], rel_id = Some ''rId2'' \<rparr> = Some ''b.pdf''"
    by code_simp
  have d: "is_pdf_target ''b.pdf''" by code_simp
  have e: "concat (List.map_filter (\<lambda>t. t) [None :: string option]) = []"
    by (simp add: List.map_filter_simps)
  show ?thesis by (rule conjI [OF a conjI [OF b conjI [OF c conjI [OF d e]]]])
qed

section \<open>The report writer\<close>

lemma dom_pdfs_unique_filenames:
  "dom (pdfs_unique_filenames lib links) = set (basenames lib links)"
proof -
  obtain c where "numbered (pdfs_unique_filenames lib links) c (first_seen (basenames lib links))"
    using pdfs_unique_filenames_numbered by blast
  then have "dom (pdfs_unique_filenames lib links) = set (first_seen (basenames lib links))"
    unfolding numbered_def by blast
  then show ?thesis unfolding first_seen_def set_extend_seen by simp
qed

lemma xlsx_unique_filenames_pdfs:
  "xlsx_unique_filenames lib links = pdfs_unique_filenames lib links"
  unfolding xlsx_unique_filenames_def pdfs_unique_filenames_def xlsx_number_loop_eq ..

lemma unique_filenames_defined:
  assumes "link \<in> set links"
  shows "\<exists>n. pdfs_unique_filenames lib links (basename lib (snd link)) = Some n"
proof -
  from assms have "basename lib (snd link) \<in> set (basenames lib links)"
    unfolding basenames_def by simp
  then have "basename lib (snd link) \<in> dom (pdfs_unique_filenames lib links)"
    unfolding dom_pdfs_unique_filenames .
  then show ?thesis by blast
qed

lemma fold_dict_const:
  "fold (\<lambda>kv d. d(fst kv \<mapsto> snd kv)) (map (\<lambda>link. (snd link, v)) links) d0 url =
     (if url \<in> snd ` set links then Some v else d0 url)"
  by (induction links arbitrary: d0) auto

lemma dict_of_const:
  "dict_of (map (\<lambda>link. (snd link, v)) links) url =
     (if url \<in> snd ` set links then Some v else None)"
  unfolding dict_of_def fold_dict_const by simp

lemma renamed_loop_result:
  assumes "\<forall>link \<in> set links. uf (basename lib (snd link)) \<noteq> None"
  shows "\<exists>dd' rf'. renamed_loop lib uf links (dd, rf) = Inr (dd', rf')
    \<and> (\<forall>url. url \<notin> snd ` set links \<longrightarrow> dd' url = dd url \<and> rf' url = rf url)
    \<and> (\<forall>url n. url \<in> snd ` set links \<longrightarrow> uf (basename lib url) = Some n \<longrightarrow>
          dd' url = Some (label @ '' '' @ fmt_03d n)
          \<and> rf' url = Some (label @ '' '' @ fmt_03d n @ '' - '' @ basename lib url))"
  using assms
proof (induction links arbitrary: dd rf)
  case Nil
  show ?case by simp
next
  case (Cons link rest)
  obtain t u where link: "link = (t, u)" by (cases link)
  from Cons.prems obtain k where k: "uf (basename lib u) = Some k"
    unfolding link by auto
  define dd1 where "dd1 = dd(u \<mapsto> label @ '' '' @ fmt_03d k)"
  define rf1 where "rf1 = rf(u \<mapsto> label @ '' '' @ fmt_03d k @ '' - '' @ basename lib u)"
  have step: "renamed_loop lib uf (link # rest) (dd, rf) = renamed_loop lib uf rest (dd1, rf1)"
    unfolding link dd1_def rf1_def using k by simp
  from Cons.prems have "\<forall>link \<in> set rest. uf (basename lib (snd link)) \<noteq> None" by simp
  from Cons.IH [OF this, of dd1 rf1] obtain dd' rf' where
    r: "renamed_loop lib uf rest (dd1, rf1) = Inr (dd', rf')"
    and frame: "\<forall>url. url \<notin> snd ` set rest \<longrightarrow> dd' url = dd1 url \<and> rf' url = rf1 url"
    and vals: "\<forall>url n. url \<in> snd ` set rest \<longrightarrow> uf (basename lib url) = Some n \<longrightarrow>
          dd' url = Some (label @ '' '' @ fmt_03d n)
          \<and> rf' url = Some (label @ '' '' @ fmt_03d n @ '' - '' @ basename lib url)"
    by blast
  have frame': "\<forall>url. url \<notin> snd ` set (link # rest) \<longrightarrow> dd' url = dd url \<and> rf' url = rf url"
  proof (intro allI impI)
    fix url assume a: "url \<notin> snd ` set (link # rest)"
    then have "url \<noteq> u" and "url \<notin> snd ` set rest" unfolding link by auto
    with frame have "dd' url = dd1 url \<and> rf' url = rf1 url" by blast
    with \<open>url \<noteq> u\<close> show "dd' url = dd url \<and> rf' url = rf url"
      unfolding dd1_def rf1_def by simp
  qed
  have vals': "\<forall>url n. url \<in> snd ` set (link # rest) \<longrightarrow> uf (basename lib url) = Some n \<longrightarrow>
          dd' url = Some (label @ '' '' @ fmt_03d n)
          \<and> rf' url = Some (label @ '' '' @ fmt_03d n @ '' - '' @ basename lib url)"
  proof (intro allI impI)
    fix url n
    assume a: "url \<in> snd ` set (link # rest)" and n: "uf (basename lib url) = Some n"
    show "dd' url = Some (label @ '' '' @ fmt_03d n)
          \<and> rf' url = Some (label @ '' '' @ fmt_03d n @ '' - '' @ basename lib url)"
    proof (cases "url \<in> snd ` set rest")
      case True
      with vals n show ?thesis by blast
    next
      case False
      with a have u: "url = u" unfolding link by auto
      with n k have kn: "k = n" by simp
      from frame False have "dd' url = dd1 url \<and> rf' url = rf1 url" by blast
      then show ?thesis unfolding dd1_def rf1_def u kn by simp
    qed
  qed
  show ?case unfolding step using r frame' vals' by blast
qed

lemma set_take_chars: "set (take_chars n s) \<subseteq> set s"
  by (induction s arbitrary: n) auto

lemma take_chars_Nil: "take_chars n [] = []"
  by simp

lemma check_string_Inr: "check_string s = Inr v \<Longrightarrow> v = take_chars 32767 s"
  unfolding check_string_def Let_def by (simp split: if_splits)

lemma check_string_legal:
  assumes "\<not> list_ex illegal_char s"
  shows "check_string s = Inr (take_chars 32767 s)"
proof -
  from assms have "\<forall>c \<in> set s. \<not> illegal_char c" unfolding list_ex_iff by blast
  with set_take_chars [of 32767 s] have "\<forall>c \<in> set (take_chars 32767 s). \<not> illegal_char c"
    by blast
  then have "\<not> list_ex illegal_char (take_chars 32767 s)" unfolding list_ex_iff by blast
  then show ?thesis unfolding check_string_def Let_def by simp
qed

lemma take_chars_short: "length s \<le> n \<Longrightarrow> take_chars n s = s"
proof (induction s arbitrary: n)
  case Nil
  show ?case by simp
next
  case (Cons c cs)
  from Cons.prems have l: "length cs \<le> n" and l1: "length cs \<le> n - 1" and n: "n \<noteq> 0"
    by simp_all
  from Cons.IH [OF l] Cons.IH [OF l1] n show ?case by simp
qed

lemma check_string_short:
  assumes "\<not> list_ex illegal_char s" and "length s \<le> 32767"
  shows "check_string s = Inr s"
  unfolding check_string_legal [OF assms(1)] take_chars_short [OF assms(2)] ..

lemma legal_status:
  "\<not> list_ex illegal_char ''Found''"
  "\<not> list_ex illegal_char ''Missing''"
  "\<not> list_ex illegal_char ''Unknown''"
  by code_simp+

lemma check_string_status:
  "check_string ''Found'' = Inr ''Found''"
  "check_string ''Missing'' = Inr ''Missing''"
  "check_string ''Unknown'' = Inr ''Unknown''"
  "check_string [] = Inr []"
proof -
  show "check_string ''Found'' = Inr ''Found''"
    by (rule check_string_short [OF legal_status(1)]) simp
  show "check_string ''Missing'' = Inr ''Missing''"
    by (rule check_string_short [OF legal_status(2)]) simp
  show "check_string ''Unknown'' = Inr ''Unknown''"
    by (rule check_string_short [OF legal_status(3)]) simp
  show "check_string [] = Inr []"
    by (rule check_string_short) simp_all
qed

lemma legal_append:
  "\<not> list_ex illegal_char s \<Longrightarrow> \<not> list_ex illegal_char t \<Longrightarrow> \<not> list_ex illegal_char (s @ t)"
  by (auto simp add: list_ex_iff)

lemma legal_digits: "list_all (\<lambda>c. \<not> illegal_char c) ''0123456789''"
  by code_simp

lemma legal_label: "\<not> list_ex illegal_char (label @ '' '')"
  by code_simp

lemma digit_nth: "d < 10 \<Longrightarrow> \<not> illegal_char (''0123456789'' ! d)"
proof -
  assume "d < 10"
  then have "''0123456789'' ! d \<in> set ''0123456789''" by (intro nth_mem) simp
  with legal_digits show ?thesis unfolding list_all_iff by blast
qed

lemma legal_str_nat: "\<not> list_ex illegal_char (str_nat n)"
proof (induction n rule: str_nat.induct)
  case (1 n)
  show ?case
  proof (cases "n < 10")
    case True
    then have "str_nat n = [''0123456789'' ! n]" by (subst str_nat.simps) simp
    with digit_nth [OF True] show ?thesis by simp
  next
    case False
    then have e: "str_nat n = str_nat (n div 10) @ [''0123456789'' ! (n mod 10)]"
      by (subst str_nat.simps) simp
    have "n mod 10 < 10" by simp
    from digit_nth [OF this] have "\<not> list_ex illegal_char [''0123456789'' ! (n mod 10)]"
      by simp
    with 1 [OF False] show ?thesis unfolding e by (rule legal_append)
  qed
qed

lemma legal_zero: "\<not> illegal_char (CHR ''0'')"
  by code_simp

lemma legal_fmt_03d: "\<not> list_ex illegal_char (fmt_03d n)"
  unfolding fmt_03d_def using legal_str_nat [of n] legal_zero by (auto simp add: list_ex_iff)

lemma legal_doc_number: "\<not> list_ex illegal_char (label @ '' '' @ fmt_03d n)"
  using legal_append [OF legal_label legal_fmt_03d, of n] by simp

lemma append_row_Inr:
  assumes "append_row r = Inr r'"
  shows "link_text_cell r' = take_chars 32767 (link_text_cell r)
    \<and> pdf_link_cell r' = take_chars 32767 (pdf_link_cell r)
    \<and> doc_number_cell r' = take_chars 32767 (doc_number_cell r)
    \<and> status_cell r' = take_chars 32767 (status_cell r)
    \<and> hyperlink_cell r' = hyperlink_cell r"
proof -
  from assms obtain a b c d where
    a: "check_string (link_text_cell r) = Inr a"
    and b: "check_string (pdf_link_cell r) = Inr b"
    and c: "check_string (doc_number_cell r) = Inr c"
    and d: "check_string (status_cell r) = Inr d"
    and r': "r' = r\<lparr> link_text_cell := a, pdf_link_cell := b, doc_number_cell := c,
                      status_cell := d \<rparr>"
    unfolding append_row_def by (auto split: sum.splits)
  from check_string_Inr [OF a] check_string_Inr [OF b] check_string_Inr [OF c]
    check_string_Inr [OF d]
  show ?thesis unfolding r' by simp
qed

lemma append_row_legal:
  assumes "\<not> list_ex illegal_char (link_text_cell r)"
    and "\<not> list_ex illegal_char (pdf_link_cell r)"
    and "\<not> list_ex illegal_char (doc_number_cell r)"
    and "\<not> list_ex illegal_char (status_cell r)"
  shows "\<exists>r'. append_row r = Inr r'"
  unfolding append_row_def
  by (simp add: check_string_legal [OF assms(1)] check_string_legal [OF assms(2)]
        check_string_legal [OF assms(3)] check_string_legal [OF assms(4)])

lemma rows_loop_Inr:
  "rows_loop lib ed md dd rf dest links sheet1 = Inr sheet \<longleftrightarrow>
     (\<exists>rows. sheet = sheet1 @ rows
        \<and> list_all2 (\<lambda>link r. append_row (row_of lib ed md dd rf dest link) = Inr r) links rows)"
proof (induction links arbitrary: sheet1)
  case Nil
  show ?case by auto
next
  case (Cons link rest)
  show ?case
  proof (cases "append_row (row_of lib ed md dd rf dest link)")
    case (Inl err)
    then show ?thesis by (simp add: list_all2_Cons1)
  next
    case (Inr r)
    have "rows_loop lib ed md dd rf dest (link # rest) sheet1 = Inr sheet \<longleftrightarrow>
        rows_loop lib ed md dd rf dest rest (sheet1 @ [r]) = Inr sheet"
      using Inr by simp
    also have "\<dots> \<longleftrightarrow> (\<exists>rows. sheet = (sheet1 @ [r]) @ rows
        \<and> list_all2 (\<lambda>link r. append_row (row_of lib ed md dd rf dest link) = Inr r) rest rows)"
      by (rule Cons.IH)
    also have "\<dots> \<longleftrightarrow> (\<exists>rows. sheet = sheet1 @ rows
        \<and> list_all2 (\<lambda>link r. append_row (row_of lib ed md dd rf dest link) = Inr r)
            (link # rest) rows)"
      using Inr by (auto simp: list_all2_Cons1)
    finally show ?thesis .
  qed
qed

lemma save_links_to_xlsx_rows:
  "\<exists>dd rf. save_links_to_xlsx lib e all_hyperlinks existing_pdfs missing_pdfs path dest =
       (case rows_loop lib (dict_of (map (\<lambda>link. (snd link, ''Found'')) existing_pdfs))
               (dict_of (map (\<lambda>link. (snd link, ''Missing'')) missing_pdfs)) dd rf dest
               all_hyperlinks [header_row] of
          Inl err \<Rightarrow> Inl err
        | Inr sheet1 \<Rightarrow> if writable e path then Inr sheet1 else Inl PermissionError)
     \<and> (\<forall>url. url \<notin> snd ` set existing_pdfs \<longrightarrow> dd url = None \<and> rf url = None)
     \<and> (\<forall>url. url \<in> snd ` set existing_pdfs \<longrightarrow>
           (\<exists>n. pdfs_unique_filenames lib existing_pdfs (basename lib url) = Some n
              \<and> dd url = Some (label @ '' '' @ fmt_03d n)
              \<and> rf url = Some (label @ '' '' @ fmt_03d n @ '' - '' @ basename lib url)))"
proof -
  let ?uf = "pdfs_unique_filenames lib existing_pdfs"
  have defined: "\<forall>link \<in> set existing_pdfs. ?uf (basename lib (snd link)) \<noteq> None"
    using unique_filenames_defined [of _ existing_pdfs lib] by fastforce
  from renamed_loop_result [where uf = ?uf and lib = lib and links = existing_pdfs,
      OF defined, of Map.empty Map.empty]
  obtain dd rf where
    r: "renamed_loop lib ?uf existing_pdfs (Map.empty, Map.empty) = Inr (dd, rf)"
    and frame: "\<forall>url. url \<notin> snd ` set existing_pdfs \<longrightarrow>
        dd url = Map.empty url \<and> rf url = Map.empty url"
    and vals: "\<forall>url n. url \<in> snd ` set existing_pdfs \<longrightarrow> ?uf (basename lib url) = Some n \<longrightarrow>
          dd url = Some (label @ '' '' @ fmt_03d n)
          \<and> rf url = Some (label @ '' '' @ fmt_03d n @ '' - '' @ basename lib url)"
    by blast
  have s: "save_links_to_xlsx lib e all_hyperlinks existing_pdfs missing_pdfs path dest =
       (case rows_loop lib (dict_of (map (\<lambda>link. (snd link, ''Found'')) existing_pdfs))
               (dict_of (map (\<lambda>link. (snd link, ''Missing'')) missing_pdfs)) dd rf dest
               all_hyperlinks [header_row] of
          Inl err \<Rightarrow> Inl err
        | Inr sheet1 \<Rightarrow> if writable e path then Inr sheet1 else Inl PermissionError)"
    unfolding save_links_to_xlsx_def Let_def xlsx_unique_filenames_pdfs r by simp
  from frame have frame': "\<forall>url. url \<notin> snd ` set existing_pdfs \<longrightarrow> dd url = None \<and> rf url = None"
    by simp
  have vals': "\<forall>url. url \<in> snd ` set existing_pdfs \<longrightarrow>
           (\<exists>n. ?uf (basename lib url) = Some n
              \<and> dd url = Some (label @ '' '' @ fmt_03d n)
              \<and> rf url = Some (label @ '' '' @ fmt_03d n @ '' - '' @ basename lib url))"
  proof (intro allI impI)
    fix url assume u: "url \<in> snd ` set existing_pdfs"
    then obtain link where "link \<in> set existing_pdfs" "snd link = url" by auto
    with defined obtain n where n: "?uf (basename lib url) = Some n" by auto
    with vals u have "dd url = Some (label @ '' '' @ fmt_03d n)
        \<and> rf url = Some (label @ '' '' @ fmt_03d n @ '' - '' @ basename lib url)" by blast
    with n show "\<exists>n. ?uf (basename lib url) = Some n
              \<and> dd url = Some (label @ '' '' @ fmt_03d n)
              \<and> rf url = Some (label @ '' '' @ fmt_03d n @ '' - '' @ basename lib url)"
      by blast
  qed
  from s frame' vals' show ?thesis by blast
qed

lemma save_links_to_xlsx_Inr:
  assumes "save_links_to_xlsx lib e all_hyperlinks existing_pdfs missing_pdfs path dest
      = Inr sheet"
  shows "\<exists>dd rf rows. sheet = header_row # rows
     \<and> list_all2 (\<lambda>link r. append_row
           (row_of lib (dict_of (map (\<lambda>link. (snd link, ''Found'')) existing_pdfs))
              (dict_of (map (\<lambda>link. (snd link, ''Missing'')) missing_pdfs)) dd rf dest link)
           = Inr r) all_hyperlinks rows
     \<and> (\<forall>url. url \<notin> snd ` set existing_pdfs \<longrightarrow> dd url = None)"
proof -
  let ?ed = "dict_of (map (\<lambda>link. (snd link, ''Found'')) existing_pdfs)"
  let ?md = "dict_of (map (\<lambda>link. (snd link, ''Missing'')) missing_pdfs)"
  from save_links_to_xlsx_rows [of lib e all_hyperlinks existing_pdfs missing_pdfs path dest]
  obtain dd rf where
    s: "save_links_to_xlsx lib e all_hyperlinks existing_pdfs missing_pdfs path dest =
       (case rows_loop lib ?ed ?md dd rf dest all_hyperlinks [header_row] of
          Inl err \<Rightarrow> Inl err
        | Inr sheet1 \<Rightarrow> if writable e path then Inr sheet1 else Inl PermissionError)"
    and frame: "\<forall>url. url \<notin> snd ` set existing_pdfs \<longrightarrow> dd url = None \<and> rf url = None"
    by blast
  from assms s have "rows_loop lib ?ed ?md dd rf dest all_hyperlinks [header_row] = Inr sheet"
    by (simp split: sum.splits if_splits)
  then obtain rows where "sheet = [header_row] @ rows"
    and "list_all2 (\<lambda>link r. append_row (row_of lib ?ed ?md dd rf dest link) = Inr r)
           all_hyperlinks rows"
    unfolding rows_loop_Inr by blast
  with frame show ?thesis by auto
qed

lemma row_of_cells:
  "link_text_cell (row_of lib ed md dd rf dest link) = fst link"
  "pdf_link_cell (row_of lib ed md dd rf dest link) = basename lib (snd link)"
  "doc_number_cell (row_of lib ed md dd rf dest link) =
     (case dd (snd link) of Some d \<Rightarrow> d | None \<Rightarrow> [])"
  "status_cell (row_of lib ed md dd rf dest link) =
     (case ed (snd link) of
        Some s \<Rightarrow> s
      | None \<Rightarrow> (case md (snd link) of Some s \<Rightarrow> s | None \<Rightarrow> ''Unknown''))"
  by (simp_all add: row_of_def Let_def)

lemma row_of_status:
  "status_cell (row_of lib (dict_of (map (\<lambda>link. (snd link, ''Found'')) existing_pdfs))
       (dict_of (map (\<lambda>link. (snd link, ''Missing'')) missing_pdfs)) dd rf dest link) =
     (if snd link \<in> snd ` set existing_pdfs then ''Found''
      else if snd link \<in> snd ` set missing_pdfs then ''Missing'' else ''Unknown'')"
  unfolding row_of_cells dict_of_const by simp

lemma take_chars_status:
  "take_chars 32767 ''Found'' = ''Found''"
  "take_chars 32767 ''Missing'' = ''Missing''"
  by (simp_all add: take_chars_short)



lemma list_all2_choice:
  "\<forall>x \<in> set xs. \<exists>y. P x y \<Longrightarrow> \<exists>ys. list_all2 P xs ys"
proof (induction xs)
  case Nil
  show ?case by simp
next
  case (Cons x xs)
  from Cons.prems obtain y where y: "P x y" by auto
  from Cons.prems have "\<forall>x \<in> set xs. \<exists>y. P x y" by simp
  from Cons.IH [OF this] obtain ys where "list_all2 P xs ys" ..
  with y have "list_all2 P (x # xs) (y # ys)" by simp
  then show ?case ..
qed

lemma save_links_to_xlsx_returns:
  assumes legal: "\<forall>link \<in> set all_hyperlinks.
      \<not> list_ex illegal_char (fst link) \<and> \<not> list_ex illegal_char (basename lib (snd link))"
    and wr: "writable e path"
  shows "\<exists>sheet. save_links_to_xlsx lib e all_hyperlinks existing_pdfs missing_pdfs path dest
      = Inr sheet"
proof -
  let ?ed = "dict_of (map (\<lambda>link. (snd link, ''Found'')) existing_pdfs)"
  let ?md = "dict_of (map (\<lambda>link. (snd link, ''Missing'')) missing_pdfs)"
  from save_links_to_xlsx_rows [of lib e all_hyperlinks existing_pdfs missing_pdfs path dest]
  obtain dd rf where
    s: "save_links_to_xlsx lib e all_hyperlinks existing_pdfs missing_pdfs path dest =
       (case rows_loop lib ?ed ?md dd rf dest all_hyperlinks [header_row] of
          Inl err \<Rightarrow> Inl err
        | Inr sheet1 \<Rightarrow> if writable e path then Inr sheet1 else Inl PermissionError)"
    and frame: "\<forall>url. url \<notin> snd ` set existing_pdfs \<longrightarrow> dd url = None \<and> rf url = None"
    and vals: "\<forall>url. url \<in> snd ` set existing_pdfs \<longrightarrow>
           (\<exists>n. pdfs_unique_filenames lib existing_pdfs (basename lib url) = Some n
              \<and> dd url = Some (label @ '' '' @ fmt_03d n)
              \<and> rf url = Some (label @ '' '' @ fmt_03d n @ '' - '' @ basename lib url))"
    by blast
  have each: "\<exists>r. append_row (row_of lib ?ed ?md dd rf dest link) = Inr r"
    if mem: "link \<in> set all_hyperlinks" for link
  proof (rule append_row_legal)
    from legal mem show "\<not> list_ex illegal_char
        (link_text_cell (row_of lib ?ed ?md dd rf dest link))"
      unfolding row_of_cells by blast
    from legal mem show "\<not> list_ex illegal_char
        (pdf_link_cell (row_of lib ?ed ?md dd rf dest link))"
      unfolding row_of_cells by blast
    show "\<not> list_ex illegal_char (doc_number_cell (row_of lib ?ed ?md dd rf dest link))"
    proof (cases "snd link \<in> snd ` set existing_pdfs")
      case True
      with vals obtain n where "dd (snd link) = Some (label @ '' '' @ fmt_03d n)" by blast
      then show ?thesis unfolding row_of_cells using legal_doc_number [of n] by simp
    next
      case False
      with frame have "dd (snd link) = None" by blast
      then show ?thesis unfolding row_of_cells by simp
    qed
    show "\<not> list_ex illegal_char (status_cell (row_of lib ?ed ?md dd rf dest link))"
      unfolding row_of_status using legal_status by simp
  qed
  from each have "\<forall>link \<in> set all_hyperlinks.
      \<exists>r. append_row (row_of lib ?ed ?md dd rf dest link) = Inr r" by blast
  then have "\<exists>rows. list_all2 (\<lambda>link r. append_row (row_of lib ?ed ?md dd rf dest link) = Inr r)
      all_hyperlinks rows"
    by (rule list_all2_choice)
  then obtain rows where
    "list_all2 (\<lambda>link r. append_row (row_of lib ?ed ?md dd rf dest link) = Inr r)
      all_hyperlinks rows" ..
  then have "rows_loop lib ?ed ?md dd rf dest all_hyperlinks [header_row]
      = Inr ([header_row] @ rows)"
    unfolding rows_loop_Inr by blast
  with s wr show ?thesis by simp
qed

lemma list_all2_nth:
  "list_all2 P xs ys \<Longrightarrow> i < length xs \<Longrightarrow> P (xs ! i) (ys ! i)"
  by (simp add: list_all2_conv_all_nth)













lemma sample_env_writable: "writable sample_env p"
  unfolding sample_env_def by simp



text \<open>
  C10. When every hyperlink of the full list occurs (by its target) among the existing
  or among the missing ones: the report writer returns a sheet whenever no display text
  and no basename holds a character that the spreadsheet library rejects and the report
  file can be written, and in every sheet that it returns the status of each data row is
  \<open>Found\<close> or \<open>Missing\<close>: the default \<open>Unknown\<close> is never written.
\<close>

theorem report_status_found_or_missing:
  assumes "snd ` set all_hyperlinks \<subseteq> snd ` set existing_pdfs \<union> snd ` set missing_pdfs"
  shows "((\<forall>link \<in> set all_hyperlinks.
            \<not> list_ex illegal_char (fst link)
            \<and> \<not> list_ex illegal_char (basename lib (snd link)))
          \<and> writable e path
         \<longrightarrow> (\<exists>sheet. save_links_to_xlsx lib e all_hyperlinks existing_pdfs missing_pdfs
                path dest = Inr sheet))
     \<and> (\<forall>sheet. save_links_to_xlsx lib e all_hyperlinks existing_pdfs missing_pdfs
                path dest = Inr sheet
          \<longrightarrow> length sheet = length all_hyperlinks + 1
            \<and> (\<forall>r \<in> set (tl sheet). status_cell r = ''Found'' \<or> status_cell r = ''Missing''))"
proof (rule conjI)
  show "(\<forall>link \<in> set all_hyperlinks.
            \<not> list_ex illegal_char (fst link)
            \<and> \<not> list_ex illegal_char (basename lib (snd link)))
          \<and> writable e path
         \<longrightarrow> (\<exists>sheet. save_links_to_xlsx lib e all_hyperlinks existing_pdfs missing_pdfs
                path dest = Inr sheet)"
    using save_links_to_xlsx_returns by blast
next
  show "\<forall>sheet. save_links_to_xlsx lib e all_hyperlinks existing_pdfs missing_pdfs
                path dest = Inr sheet
          \<longrightarrow> length sheet = length all_hyperlinks + 1
            \<and> (\<forall>r \<in> set (tl sheet). status_cell r = ''Found'' \<or> status_cell r = ''Missing'')"
  proof (intro allI impI)
    fix sheet
    assume saved: "save_links_to_xlsx lib e all_hyperlinks existing_pdfs missing_pdfs
        path dest = Inr sheet"
    let ?ed = "dict_of (map (\<lambda>link. (snd link, ''Found'')) existing_pdfs)"
    let ?md = "dict_of (map (\<lambda>link. (snd link, ''Missing'')) missing_pdfs)"
    from save_links_to_xlsx_Inr [OF saved]
    obtain dd rf rows where sh: "sheet = header_row # rows"
      and all2: "list_all2 (\<lambda>link r. append_row (row_of lib ?ed ?md dd rf dest link) = Inr r)
          all_hyperlinks rows"
      by blast
    from all2 have len: "length rows = length all_hyperlinks"
      by (simp add: list_all2_lengthD)
    have l: "length sheet = length all_hyperlinks + 1" unfolding sh using len by simp
    have st: "\<forall>r \<in> set (tl sheet). status_cell r = ''Found'' \<or> status_cell r = ''Missing''"
    proof
      fix r assume "r \<in> set (tl sheet)"
      then have "r \<in> set rows" unfolding sh by simp
      then obtain i where i: "i < length rows" and r: "r = rows ! i"
        unfolding in_set_conv_nth by blast
      from i len have i': "i < length all_hyperlinks" by simp
      from list_all2_nth [OF all2 i']
      have a: "append_row (row_of lib ?ed ?md dd rf dest (all_hyperlinks ! i)) = Inr r"
        unfolding r .
      from append_row_Inr [OF a]
      have c: "status_cell r = take_chars 32767
          (status_cell (row_of lib ?ed ?md dd rf dest (all_hyperlinks ! i)))"
        by blast
      from i' have "all_hyperlinks ! i \<in> set all_hyperlinks" by (rule nth_mem)
      then have "snd (all_hyperlinks ! i) \<in> snd ` set all_hyperlinks" by (rule imageI)
      with assms have "snd (all_hyperlinks ! i) \<in> snd ` set existing_pdfs
          \<or> snd (all_hyperlinks ! i) \<in> snd ` set missing_pdfs"
        by blast
      then have "status_cell (row_of lib ?ed ?md dd rf dest (all_hyperlinks ! i)) = ''Found''
          \<or> status_cell (row_of lib ?ed ?md dd rf dest (all_hyperlinks ! i)) = ''Missing''"
        unfolding row_of_status by auto
      then show "status_cell r = ''Found'' \<or> status_cell r = ''Missing''"
        unfolding c using take_chars_status by presburger
    qed
    from l st
    show "length sheet = length all_hyperlinks + 1
        \<and> (\<forall>r \<in> set (tl sheet). status_cell r = ''Found'' \<or> status_cell r = ''Missing'')"
      by (rule conjI)
  qed
qed

lemma two_links_legal:
  "\<forall>link \<in> set [(''A'', ''a.pdf''), (''B'', ''b.pdf'')].
     \<not> list_ex illegal_char (fst link) \<and> \<not> list_ex illegal_char (basename posix_lib (snd link))"
  by code_simp

theorem report_status_found_or_missing_witness:
  "snd ` set [(''A'', ''a.pdf''), (''B'', ''b.pdf'')]
     \<subseteq> snd ` set [(''A'', ''a.pdf'')] \<union> snd ` set [(''B'', ''b.pdf'')]
   \<and> (\<exists>sheet. save_links_to_xlsx posix_lib sample_env [(''A'', ''a.pdf''), (''B'', ''b.pdf'')]
          [(''A'', ''a.pdf'')] [(''B'', ''b.pdf'')] ''/out/extracted_links.xlsx'' ''/out''
          = Inr sheet
        \<and> length sheet = 3
        \<and> (status_cell (sheet ! 1) = ''Found'' \<or> status_cell (sheet ! 1) = ''Missing'')
        \<and> (status_cell (sheet ! 2) = ''Found'' \<or> status_cell (sheet ! 2) = ''Missing''))"
proof -
  have h: "snd ` set [(''A'', ''a.pdf''), (''B'', ''b.pdf'')]
     \<subseteq> snd ` set [(''A'', ''a.pdf'')] \<union> snd ` set [(''B'', ''b.pdf'')]"
    by simp
  note t = report_status_found_or_missing [OF h, of posix_lib sample_env
      "''/out/extracted_links.xlsx''" "''/out''"]
  from t [THEN conjunct1] two_links_legal sample_env_writable
  obtain sheet where
    s: "save_links_to_xlsx posix_lib sample_env [(''A'', ''a.pdf''), (''B'', ''b.pdf'')]
          [(''A'', ''a.pdf'')] [(''B'', ''b.pdf'')] ''/out/extracted_links.xlsx'' ''/out''
          = Inr sheet"
    by blast
  from t [THEN conjunct2, rule_format, OF s]
  have len: "length sheet = 3"
    and st: "\<forall>r \<in> set (tl sheet). status_cell r = ''Found'' \<or> status_cell r = ''Missing''"
    by simp_all
  from len obtain r0 r1 r2 where sh: "sheet = [r0, r1, r2]"
    by (metis length_0_conv length_Suc_conv numeral_3_eq_3)
  from st have a: "status_cell (sheet ! 1) = ''Found'' \<or> status_cell (sheet ! 1) = ''Missing''"
    unfolding sh by simp
  from st have b: "status_cell (sheet ! 2) = ''Found'' \<or> status_cell (sheet ! 2) = ''Missing''"
    unfolding sh by simp
  from h s len a b show ?thesis by blast
qed

section \<open>The PDF transformer\<close>

lemma dest_path_of_eq:
  "uf (basename lib (snd link)) = Some n \<Longrightarrow>
   dest_path_of lib opts uf dest link =
     join lib dest (pdfs_new_name opts n (basename lib (snd link)))"
  by (simp add: dest_path_of_def dest_name_of_def)

lemma process_item_transformed:
  assumes n: "uf (basename lib (snd link)) = Some n"
    and t: "transform e opts (files w) n (fst link) (snd link)
              (source_path_of lib central link) (dest_path_of lib opts uf dest link) = Inr f"
  shows "\<exists>w2. process_item lib e opts uf central dest tot cnt link w = Inr w2
     \<and> files w2 = f \<and> errors w2 = errors w \<and> length (status w2) = length (status w) + 1"
  using t unfolding dest_path_of_eq [where uf = uf and lib = lib and link = link, OF n] source_path_of_def
  by (simp add: process_item_def n Let_def)

lemma process_item_failed:
  assumes n: "uf (basename lib (snd link)) = Some n"
    and t: "transform e opts (files w) n (fst link) (snd link)
              (source_path_of lib central link) (dest_path_of lib opts uf dest link) = Inl err"
  shows "\<exists>w2. process_item lib e opts uf central dest tot cnt link w = Inr w2
     \<and> files w2 =
         (case shutil_copy e (files w) (source_path_of lib central link)
                 (dest_path_of lib opts uf dest link) of
            Inr f \<Rightarrow> f | Inl _ \<Rightarrow> files w)
     \<and> errors w2 = errors w @ [(source_path_of lib central link, err)]
     \<and> length (status w2) = length (status w) + 1"
  using t unfolding dest_path_of_eq [where uf = uf and lib = lib and link = link, OF n] source_path_of_def
  by (simp add: process_item_def n Let_def split: sum.splits)

lemma process_item_total:
  assumes n: "uf (basename lib (snd link)) = Some n"
  shows "\<exists>w2. process_item lib e opts uf central dest tot cnt link w = Inr w2
     \<and> length (status w2) = length (status w) + 1"
proof (cases "transform e opts (files w) n (fst link) (snd link)
              (source_path_of lib central link) (dest_path_of lib opts uf dest link)")
  case (Inl err)
  from process_item_failed [where uf = uf and lib = lib and link = link, OF n Inl]
  show ?thesis by blast
next
  case (Inr f)
  from process_item_transformed [where uf = uf and lib = lib and link = link, OF n Inr]
  show ?thesis by blast
qed

lemma process_loop_total:
  assumes "\<forall>link \<in> set links. uf (basename lib (snd link)) \<noteq> None"
  shows "\<exists>w'. process_loop lib e opts uf central dest tot cnt links w = Inr w'
     \<and> length (status w') = length (status w) + length links"
  using assms
proof (induction links arbitrary: cnt w)
  case Nil
  show ?case by simp
next
  case (Cons link rest)
  from Cons.prems obtain n where n: "uf (basename lib (snd link)) = Some n" by auto
  from process_item_total [where uf = uf and lib = lib and link = link, OF n] obtain w2 where
    w2: "process_item lib e opts uf central dest tot (cnt + 1) link w = Inr w2"
    and l2: "length (status w2) = length (status w) + 1"
    by blast
  from Cons.prems have "\<forall>link \<in> set rest. uf (basename lib (snd link)) \<noteq> None" by simp
  from Cons.IH [OF this, of "cnt + 1" w2] obtain w' where
    w': "process_loop lib e opts uf central dest tot (cnt + 1) rest w2 = Inr w'"
    and l': "length (status w') = length (status w2) + length rest"
    by blast
  have "process_loop lib e opts uf central dest tot cnt (link # rest) w = Inr w'"
    using w2 w' by simp
  moreover from l2 l' have "length (status w') = length (status w) + length (link # rest)"
    by simp
  ultimately show ?case by blast
qed

lemma process_loop_append:
  "process_loop lib e opts uf central dest tot cnt (xs @ ys) w =
     (case process_loop lib e opts uf central dest tot cnt xs w of
        Inl err \<Rightarrow> Inl err
      | Inr w' \<Rightarrow> process_loop lib e opts uf central dest tot (cnt + length xs) ys w')"
proof (induction xs arbitrary: cnt w)
  case Nil
  show ?case by simp
next
  case (Cons x xs)
  show ?case
  proof (cases "process_item lib e opts uf central dest tot (cnt + 1) x w")
    case (Inl err)
    then show ?thesis by simp
  next
    case (Inr w2)
    have a: "cnt + 1 + length xs = cnt + length (x # xs)" by simp
    have "process_loop lib e opts uf central dest tot cnt ((x # xs) @ ys) w =
        process_loop lib e opts uf central dest tot (cnt + 1) (xs @ ys) w2"
      using Inr by simp
    also have "\<dots> =
        (case process_loop lib e opts uf central dest tot (cnt + 1) xs w2 of
           Inl err \<Rightarrow> Inl err
         | Inr w' \<Rightarrow> process_loop lib e opts uf central dest tot (cnt + length (x # xs)) ys w')"
      unfolding a [symmetric] by (rule Cons.IH)
    also have "process_loop lib e opts uf central dest tot (cnt + 1) xs w2 =
        process_loop lib e opts uf central dest tot cnt (x # xs) w"
      using Inr by simp
    finally show ?thesis .
  qed
qed

lemma process_pdfs_split:
  assumes split: "existing_pdfs = before @ link # after"
    and mk: "makedirs_ok e dest"
  shows "\<exists>n w1 w2 w3.
      pdfs_unique_filenames lib existing_pdfs (basename lib (snd link)) = Some n
    \<and> process_loop lib e opts (pdfs_unique_filenames lib existing_pdfs) central dest
        (length existing_pdfs) 0 before w0 = Inr w1
    \<and> process_item lib e opts (pdfs_unique_filenames lib existing_pdfs) central dest
        (length existing_pdfs) (length before + 1) link w1 = Inr w2
    \<and> process_loop lib e opts (pdfs_unique_filenames lib existing_pdfs) central dest
        (length existing_pdfs) (length before + 1) after w2 = Inr w3
    \<and> process_pdfs lib e opts existing_pdfs central dest w0 = Inr w3
    \<and> length (status w3) = length (status w0) + length existing_pdfs"
proof -
  let ?uf = "pdfs_unique_filenames lib existing_pdfs"
  let ?tot = "length existing_pdfs"
  have defined: "\<forall>l \<in> set existing_pdfs. ?uf (basename lib (snd l)) \<noteq> None"
    using unique_filenames_defined [of _ existing_pdfs lib] by fastforce
  from defined split obtain n where n: "?uf (basename lib (snd link)) = Some n" by auto
  from defined split have db: "\<forall>l \<in> set before. ?uf (basename lib (snd l)) \<noteq> None" by simp
  from defined split have da: "\<forall>l \<in> set after. ?uf (basename lib (snd l)) \<noteq> None" by simp
  from process_loop_total [where uf = ?uf and lib = lib and links = before, OF db,
      of e opts central dest ?tot 0 w0] obtain w1 where
    w1: "process_loop lib e opts ?uf central dest ?tot 0 before w0 = Inr w1"
    and l1: "length (status w1) = length (status w0) + length before" by blast
  from process_item_total [where uf = ?uf and lib = lib and link = link, OF n,
      of e opts central dest ?tot "length before + 1" w1]
  obtain w2 where
    w2: "process_item lib e opts ?uf central dest ?tot (length before + 1) link w1 = Inr w2"
    and l2: "length (status w2) = length (status w1) + 1" by blast
  from process_loop_total [where uf = ?uf and lib = lib and links = after, OF da,
      of e opts central dest ?tot "length before + 1" w2]
  obtain w3 where
    w3: "process_loop lib e opts ?uf central dest ?tot (length before + 1) after w2 = Inr w3"
    and l3: "length (status w3) = length (status w2) + length after" by blast
  have "process_loop lib e opts ?uf central dest ?tot 0 (before @ link # after) w0 = Inr w3"
    unfolding process_loop_append w1 using w2 w3 by simp
  then have p: "process_pdfs lib e opts existing_pdfs central dest w0 = Inr w3"
    unfolding process_pdfs_def split [symmetric] using mk by simp
  from l1 l2 l3 split have l: "length (status w3) = length (status w0) + length existing_pdfs"
    by simp
  from n w1 w2 w3 p l show ?thesis by blast
qed

lemma transform_cover:
  assumes "add_cover_page opts"
    and "fls src = Some (PdfFile pages)"
    and "writable e dst"
  shows "transform e opts fls n link_text pdf_filename src dst =
     Inr (fls(dst \<mapsto> PdfFile (CoverPage (create_cover_page e n link_text pdf_filename) # pages)))"
  using assms by (simp add: transform_def read_pdf_def write_pdf_def Let_def)

text \<open>
  C7. With the cover-page option on and the destination folder created, when the loop of
  \<open>process_pdfs\<close> reaches a resolved hyperlink whose source is a readable PDF and whose
  destination can be written, the file it writes holds the cover page first and then the
  pages of the source in their order: one page more than the source.
\<close>

theorem cover_page_prepended:
  assumes cover: "add_cover_page opts"
    and split: "existing_pdfs = before @ link # after"
    and reached: "process_loop lib e opts (pdfs_unique_filenames lib existing_pdfs) central dest
        (length existing_pdfs) 0 before w0 = Inr w1"
    and readable: "files w1 (source_path_of lib central link) = Some (PdfFile pages)"
    and wr: "writable e
        (dest_path_of lib opts (pdfs_unique_filenames lib existing_pdfs) dest link)"
    and mk: "makedirs_ok e dest"
  shows "\<exists>n w2 out.
      pdfs_unique_filenames lib existing_pdfs (basename lib (snd link)) = Some n
    \<and> process_item lib e opts (pdfs_unique_filenames lib existing_pdfs) central dest
        (length existing_pdfs) (length before + 1) link w1 = Inr w2
    \<and> process_pdfs lib e opts existing_pdfs central dest w0 =
        process_loop lib e opts (pdfs_unique_filenames lib existing_pdfs) central dest
          (length existing_pdfs) (length before + 1) after w2
    \<and> files w2 (dest_path_of lib opts (pdfs_unique_filenames lib existing_pdfs) dest link)
        = Some (PdfFile out)
    \<and> length out = length pages + 1
    \<and> out ! 0 = CoverPage (create_cover_page e n (fst link) (snd link))
    \<and> drop 1 out = pages"
proof -
  let ?uf = "pdfs_unique_filenames lib existing_pdfs"
  let ?src = "source_path_of lib central link"
  let ?dst = "dest_path_of lib opts ?uf dest link"
  from process_pdfs_split [where lib = lib and opts = opts and central = central and ?w0.0 = w0,
      OF split mk]
  obtain n w1' w2 w3 where
    n: "?uf (basename lib (snd link)) = Some n"
    and w1': "process_loop lib e opts ?uf central dest (length existing_pdfs) 0 before w0
        = Inr w1'"
    and w2: "process_item lib e opts ?uf central dest (length existing_pdfs)
        (length before + 1) link w1' = Inr w2"
    and w3: "process_loop lib e opts ?uf central dest (length existing_pdfs)
        (length before + 1) after w2 = Inr w3"
    and p: "process_pdfs lib e opts existing_pdfs central dest w0 = Inr w3"
    by blast
  from reached w1' have eq: "w1' = w1" by simp
  let ?out = "CoverPage (create_cover_page e n (fst link) (snd link)) # pages"
  have t: "transform e opts (files w1) n (fst link) (snd link) ?src ?dst =
      Inr ((files w1)(?dst \<mapsto> PdfFile ?out))"
    using cover readable wr by (rule transform_cover)
  from process_item_transformed [where uf = ?uf and lib = lib and link = link, OF n t,
      of "length existing_pdfs" "length before + 1"]
  obtain w2' where
    w2': "process_item lib e opts ?uf central dest (length existing_pdfs)
        (length before + 1) link w1 = Inr w2'"
    and f2: "files w2' = (files w1)(?dst \<mapsto> PdfFile ?out)"
    by blast
  from w2 w2' have eq2: "w2' = w2" unfolding eq by simp
  from f2 have f: "files w2 ?dst = Some (PdfFile ?out)" unfolding eq2 by simp
  from w2 have i: "process_item lib e opts ?uf central dest (length existing_pdfs)
        (length before + 1) link w1 = Inr w2" unfolding eq .
  from p w3 have c: "process_pdfs lib e opts existing_pdfs central dest w0 =
        process_loop lib e opts ?uf central dest (length existing_pdfs)
          (length before + 1) after w2" by simp
  have l: "length ?out = length pages + 1" by simp
  have h: "?out ! 0 = CoverPage (create_cover_page e n (fst link) (snd link))" by simp
  have d: "drop 1 ?out = pages" by simp
  from n i c f l h d show ?thesis by blast
qed

text \<open>
  C8. Once the destination folder is created, every call of \<open>process_pdfs\<close> returns,
  having handled every item: for each item of the batch the loop reaches it, finishes it
  and goes on with the items after it. When the transformation of the item fails, the
  error is logged and the verbatim copy of the source to the destination is attempted;
  the files afterwards are those of the copy when it succeeds and are unchanged when it
  fails too.
\<close>

theorem failing_item_does_not_abort:
  assumes split: "existing_pdfs = before @ link # after"
    and mk: "makedirs_ok e dest"
  shows "\<exists>n w1 w2 w3.
      pdfs_unique_filenames lib existing_pdfs (basename lib (snd link)) = Some n
    \<and> process_loop lib e opts (pdfs_unique_filenames lib existing_pdfs) central dest
        (length existing_pdfs) 0 before w0 = Inr w1
    \<and> process_item lib e opts (pdfs_unique_filenames lib existing_pdfs) central dest
        (length existing_pdfs) (length before + 1) link w1 = Inr w2
    \<and> process_loop lib e opts (pdfs_unique_filenames lib existing_pdfs) central dest
        (length existing_pdfs) (length before + 1) after w2 = Inr w3
    \<and> process_pdfs lib e opts existing_pdfs central dest w0 = Inr w3
    \<and> length (status w3) = length (status w0) + length existing_pdfs
    \<and> (\<forall>err. transform e opts (files w1) n (fst link) (snd link)
                (source_path_of lib central link)
                (dest_path_of lib opts (pdfs_unique_filenames lib existing_pdfs) dest link)
              = Inl err \<longrightarrow>
          errors w2 = errors w1 @ [(source_path_of lib central link, err)]
          \<and> files w2 =
              (case shutil_copy e (files w1) (source_path_of lib central link)
                      (dest_path_of lib opts (pdfs_unique_filenames lib existing_pdfs) dest link) of
                 Inr f \<Rightarrow> f | Inl _ \<Rightarrow> files w1))"
proof -
  let ?uf = "pdfs_unique_filenames lib existing_pdfs"
  let ?src = "source_path_of lib central link"
  let ?dst = "dest_path_of lib opts ?uf dest link"
  from process_pdfs_split [where lib = lib and opts = opts and central = central and ?w0.0 = w0,
      OF split mk]
  obtain n w1 w2 w3 where
    n: "?uf (basename lib (snd link)) = Some n"
    and w1: "process_loop lib e opts ?uf central dest (length existing_pdfs) 0 before w0
        = Inr w1"
    and w2: "process_item lib e opts ?uf central dest (length existing_pdfs)
        (length before + 1) link w1 = Inr w2"
    and w3: "process_loop lib e opts ?uf central dest (length existing_pdfs)
        (length before + 1) after w2 = Inr w3"
    and p: "process_pdfs lib e opts existing_pdfs central dest w0 = Inr w3"
    and l: "length (status w3) = length (status w0) + length existing_pdfs"
    by blast
  have fb: "\<forall>err. transform e opts (files w1) n (fst link) (snd link) ?src ?dst = Inl err \<longrightarrow>
          errors w2 = errors w1 @ [(?src, err)]
          \<and> files w2 = (case shutil_copy e (files w1) ?src ?dst of
                          Inr f \<Rightarrow> f | Inl _ \<Rightarrow> files w1)"
  proof (intro allI impI)
    fix err
    assume t: "transform e opts (files w1) n (fst link) (snd link) ?src ?dst = Inl err"
    from process_item_failed [where uf = ?uf and lib = lib and link = link, OF n t,
        of "length existing_pdfs" "length before + 1"]
    obtain w2' where
      w2': "process_item lib e opts ?uf central dest (length existing_pdfs)
          (length before + 1) link w1 = Inr w2'"
      and f: "files w2' = (case shutil_copy e (files w1) ?src ?dst of
                            Inr f \<Rightarrow> f | Inl _ \<Rightarrow> files w1)"
      and er: "errors w2' = errors w1 @ [(?src, err)]"
      by blast
    from w2 w2' have eq: "w2' = w2" by simp
    from er f show "errors w2 = errors w1 @ [(?src, err)]
          \<and> files w2 = (case shutil_copy e (files w1) ?src ?dst of
                          Inr f \<Rightarrow> f | Inl _ \<Rightarrow> files w1)"
      unfolding eq by simp
  qed
  from n w1 w2 w3 p l fb show ?thesis by blast
qed

lemma sample_env_makedirs: "makedirs_ok sample_env p"
  unfolding sample_env_def by simp

lemma batch_numbers:
  "pdfs_unique_filenames posix_lib [(''A'', ''docs/a.pdf''), (''Bad'', ''bad.pdf'')]
     (basename posix_lib (snd (''A'', ''docs/a.pdf''))) = Some 1"
  "pdfs_unique_filenames posix_lib [(''Bad'', ''bad.pdf''), (''A'', ''docs/a.pdf'')]
     (basename posix_lib (snd (''Bad'', ''bad.pdf''))) = Some 1"
  by code_simp+

lemma batch_paths:
  "source_path_of posix_lib ''/pdfs'' (''A'', ''docs/a.pdf'') = ''/pdfs/a.pdf''"
  "dest_path_of posix_lib cover_only
     (pdfs_unique_filenames posix_lib [(''A'', ''docs/a.pdf''), (''Bad'', ''bad.pdf'')])
     ''/out'' (''A'', ''docs/a.pdf'') = ''/out/a.pdf''"
  "source_path_of posix_lib ''/pdfs'' (''Bad'', ''bad.pdf'') = ''/pdfs/bad.pdf''"
  "dest_path_of posix_lib cover_only
     (pdfs_unique_filenames posix_lib [(''Bad'', ''bad.pdf''), (''A'', ''docs/a.pdf'')])
     ''/out'' (''Bad'', ''bad.pdf'') = ''/out/bad.pdf''"
  by code_simp+

lemma sample_cover:
  "create_cover_page sample_env 1 lt fn =
     \<lparr> font_name = Times_Roman, font_size = 24, drawn_text = label @ '' 1'' \<rparr>"
proof -
  have "str_nat 1 = ''1''" by code_simp
  then show ?thesis unfolding create_cover_page_def Let_def sample_env_def by simp
qed

lemma sample_world_files:
  "files sample_world ''/pdfs/a.pdf'' = Some (PdfFile [SourcePage 0, SourcePage 1])"
  "files sample_world ''/pdfs/bad.pdf'' = Some (OtherFile [37, 80])"
  unfolding sample_world_def sample_files_def by simp_all

theorem cover_page_prepended_witness:
  "\<exists>w2 out.
      process_item posix_lib sample_env cover_only
        (pdfs_unique_filenames posix_lib [(''A'', ''docs/a.pdf''), (''Bad'', ''bad.pdf'')])
        ''/pdfs'' ''/out'' 2 1 (''A'', ''docs/a.pdf'') sample_world = Inr w2
    \<and> files w2 ''/out/a.pdf'' = Some (PdfFile out)
    \<and> length out = 3
    \<and> out ! 0 = CoverPage \<lparr> font_name = Times_Roman, font_size = 24,
                             drawn_text = label @ '' 1'' \<rparr>
    \<and> drop 1 out = [SourcePage 0, SourcePage 1]"
proof -
  let ?batch = "[(''A'', ''docs/a.pdf''), (''Bad'', ''bad.pdf'')]"
  let ?uf = "pdfs_unique_filenames posix_lib ?batch"
  have cover: "add_cover_page cover_only" unfolding cover_only_def by simp
  have split: "?batch = [] @ (''A'', ''docs/a.pdf'') # [(''Bad'', ''bad.pdf'')]" by simp
  have reached: "process_loop posix_lib sample_env cover_only ?uf ''/pdfs'' ''/out''
      (length ?batch) 0 [] sample_world = Inr sample_world"
    by simp
  have readable: "files sample_world (source_path_of posix_lib ''/pdfs'' (''A'', ''docs/a.pdf''))
      = Some (PdfFile [SourcePage 0, SourcePage 1])"
    unfolding batch_paths by (rule sample_world_files)
  have wr: "writable sample_env
      (dest_path_of posix_lib cover_only ?uf ''/out'' (''A'', ''docs/a.pdf''))"
    by (rule sample_env_writable)
  have mk: "makedirs_ok sample_env ''/out''" by (rule sample_env_makedirs)
  from cover_page_prepended [OF cover split reached readable wr mk]
  obtain n w2 out where
    n: "?uf (basename posix_lib (snd (''A'', ''docs/a.pdf''))) = Some n"
    and i: "process_item posix_lib sample_env cover_only ?uf ''/pdfs'' ''/out''
        (length ?batch) (length ([] :: hyperlink list) + 1) (''A'', ''docs/a.pdf'') sample_world
        = Inr w2"
    and f: "files w2 (dest_path_of posix_lib cover_only ?uf ''/out'' (''A'', ''docs/a.pdf''))
        = Some (PdfFile out)"
    and l: "length out = length [SourcePage 0, SourcePage 1] + 1"
    and h: "out ! 0 = CoverPage (create_cover_page sample_env n
        (fst (''A'', ''docs/a.pdf'')) (snd (''A'', ''docs/a.pdf'')))"
    and d: "drop 1 out = [SourcePage 0, SourcePage 1]"
    by blast
  from n have n1: "n = 1" unfolding batch_numbers by simp
  from i have i': "process_item posix_lib sample_env cover_only ?uf ''/pdfs'' ''/out'' 2 1
      (''A'', ''docs/a.pdf'') sample_world = Inr w2" by (simp add: numeral_2_eq_2)
  from f have f': "files w2 ''/out/a.pdf'' = Some (PdfFile out)" unfolding batch_paths .
  from l have l': "length out = 3" by simp
  from h have h': "out ! 0 = CoverPage \<lparr> font_name = Times_Roman, font_size = 24,
      drawn_text = label @ '' 1'' \<rparr>"
    unfolding n1 sample_cover .
  from i' f' l' h' d show ?thesis by blast
qed

lemma bad_transform:
  "transform sample_env cover_only (files sample_world) n lt fn ''/pdfs/bad.pdf'' ''/out/bad.pdf''
     = Inl PdfReadError"
  unfolding transform_def read_pdf_def Let_def sample_world_files
  by (simp add: cover_only_def)

lemma bad_copy:
  "shutil_copy sample_env (files sample_world) ''/pdfs/bad.pdf'' ''/out/bad.pdf''
     = Inr ((files sample_world)(''/out/bad.pdf'' \<mapsto> OtherFile [37, 80]))"
  unfolding shutil_copy_def sample_world_files
  by (simp add: sample_env_def)

theorem failing_item_does_not_abort_witness:
  "\<exists>w2 w3.
      process_item posix_lib sample_env cover_only
        (pdfs_unique_filenames posix_lib [(''Bad'', ''bad.pdf''), (''A'', ''docs/a.pdf'')])
        ''/pdfs'' ''/out'' 2 1 (''Bad'', ''bad.pdf'') sample_world = Inr w2
    \<and> process_loop posix_lib sample_env cover_only
        (pdfs_unique_filenames posix_lib [(''Bad'', ''bad.pdf''), (''A'', ''docs/a.pdf'')])
        ''/pdfs'' ''/out'' 2 1 [(''A'', ''docs/a.pdf'')] w2 = Inr w3
    \<and> process_pdfs posix_lib sample_env cover_only
        [(''Bad'', ''bad.pdf''), (''A'', ''docs/a.pdf'')] ''/pdfs'' ''/out'' sample_world = Inr w3
    \<and> length (status w3) = 2
    \<and> errors w2 = [(''/pdfs/bad.pdf'', PdfReadError)]
    \<and> files w2 ''/out/bad.pdf'' = Some (OtherFile [37, 80])"
proof -
  let ?batch = "[(''Bad'', ''bad.pdf''), (''A'', ''docs/a.pdf'')]"
  let ?uf = "pdfs_unique_filenames posix_lib ?batch"
  have split: "?batch = [] @ (''Bad'', ''bad.pdf'') # [(''A'', ''docs/a.pdf'')]" by simp
  have mk: "makedirs_ok sample_env ''/out''" by (rule sample_env_makedirs)
  from failing_item_does_not_abort [OF split mk, of posix_lib cover_only "''/pdfs''" sample_world]
  obtain n w1 w2 w3 where
    n: "?uf (basename posix_lib (snd (''Bad'', ''bad.pdf''))) = Some n"
    and w1: "process_loop posix_lib sample_env cover_only ?uf ''/pdfs'' ''/out''
        (length ?batch) 0 [] sample_world = Inr w1"
    and w2: "process_item posix_lib sample_env cover_only ?uf ''/pdfs'' ''/out''
        (length ?batch) (length ([] :: hyperlink list) + 1) (''Bad'', ''bad.pdf'') w1 = Inr w2"
    and w3: "process_loop posix_lib sample_env cover_only ?uf ''/pdfs'' ''/out''
        (length ?batch) (length ([] :: hyperlink list) + 1) [(''A'', ''docs/a.pdf'')] w2 = Inr w3"
    and p: "process_pdfs posix_lib sample_env cover_only ?batch ''/pdfs'' ''/out'' sample_world
        = Inr w3"
    and l: "length (status w3) = length (status sample_world) + length ?batch"
    and fb: "\<forall>err. transform sample_env cover_only (files w1) n
                (fst (''Bad'', ''bad.pdf'')) (snd (''Bad'', ''bad.pdf''))
                (source_path_of posix_lib ''/pdfs'' (''Bad'', ''bad.pdf''))
                (dest_path_of posix_lib cover_only ?uf ''/out'' (''Bad'', ''bad.pdf''))
              = Inl err \<longrightarrow>
          errors w2 = errors w1 @ [(source_path_of posix_lib ''/pdfs'' (''Bad'', ''bad.pdf''), err)]
          \<and> files w2 =
              (case shutil_copy sample_env (files w1)
                      (source_path_of posix_lib ''/pdfs'' (''Bad'', ''bad.pdf''))
                      (dest_path_of posix_lib cover_only ?uf ''/out'' (''Bad'', ''bad.pdf'')) of
                 Inr f \<Rightarrow> f | Inl _ \<Rightarrow> files w1)"
    by blast
  from w1 have e1: "w1 = sample_world" by simp
  from fb [rule_format, of PdfReadError]
  have "errors w2 = errors sample_world @ [(''/pdfs/bad.pdf'', PdfReadError)]
      \<and> files w2 = (files sample_world)(''/out/bad.pdf'' \<mapsto> OtherFile [37, 80])"
    unfolding e1 batch_paths bad_copy using bad_transform by simp
  then have er: "errors w2 = [(''/pdfs/bad.pdf'', PdfReadError)]"
    and fl: "files w2 ''/out/bad.pdf'' = Some (OtherFile [37, 80])"
    by (simp_all add: sample_world_def)
  from w2 have i: "process_item posix_lib sample_env cover_only ?uf ''/pdfs'' ''/out'' 2 1
      (''Bad'', ''bad.pdf'') sample_world = Inr w2"
    unfolding e1 by (simp add: numeral_2_eq_2)
  from w3 have r: "process_loop posix_lib sample_env cover_only ?uf ''/pdfs'' ''/out'' 2 1
      [(''A'', ''docs/a.pdf'')] w2 = Inr w3"
    by (simp add: numeral_2_eq_2)
  from l have l': "length (status w3) = 2" by (simp add: sample_world_def)
  from i r p l' er fl show ?thesis by blast
qed

section \<open>The cover page\<close>

lemma length_str_nat_small: "n < 10 \<Longrightarrow> length (str_nat n) = 1"
  by (subst str_nat.simps) simp

lemma length_str_nat_large: "10 \<le> n \<Longrightarrow> length (str_nat n) = length (str_nat (n div 10)) + 1"
  by (subst str_nat.simps) simp

lemma length_str_nat_ge3: "3 \<le> length (str_nat n) \<longleftrightarrow> 100 \<le> n"
proof (cases "n < 10")
  case True
  then show ?thesis using length_str_nat_small [of n] by simp
next
  case False
  then have n: "10 \<le> n" by simp
  show ?thesis
  proof (cases "n div 10 < 10")
    case True
    then have "length (str_nat (n div 10)) = 1" by (rule length_str_nat_small)
    then have "length (str_nat n) = 2" using length_str_nat_large [OF n] by simp
    moreover from True have "n < 100" by simp
    ultimately show ?thesis by simp
  next
    case False
    then have d: "10 \<le> n div 10" by simp
    have "n div 10 div 10 < 10 \<or> 10 \<le> n div 10 div 10" by arith
    then have "1 \<le> length (str_nat (n div 10 div 10))"
      using length_str_nat_small [of "n div 10 div 10"]
        length_str_nat_large [of "n div 10 div 10"] by auto
    then have "2 \<le> length (str_nat (n div 10))" using length_str_nat_large [OF d] by simp
    then have "3 \<le> length (str_nat n)" using length_str_nat_large [OF n] by simp
    moreover from d have "100 \<le> n" by simp
    ultimately show ?thesis by simp
  qed
qed

lemma str_nat_padded: "str_nat n = fmt_03d n \<longleftrightarrow> 100 \<le> n"
proof -
  have "str_nat n = fmt_03d n \<longleftrightarrow> 3 - length (str_nat n) = 0"
    unfolding fmt_03d_def by auto
  also have "\<dots> \<longleftrightarrow> 3 \<le> length (str_nat n)" by simp
  finally show ?thesis unfolding length_str_nat_ge3 .
qed

text \<open>
  C2 fails as the specification states it. For document number 1 the cover page of a host
  without the Arabic packages reads the label and \<open>1\<close>, not \<open>001\<close>; and when drawing in
  Times-Roman fails, it reads \<open>1\<close> alone, without the label.
\<close>

theorem cover_page_not_padded_counterexample:
  "drawn_text (create_cover_page sample_env 1 ''A'' ''a.pdf'') = label @ '' 1''
   \<and> fmt_03d 1 = ''001''
   \<and> \<not> sublist (fmt_03d 1) (drawn_text (create_cover_page sample_env 1 ''A'' ''a.pdf''))
   \<and> drawn_text (create_cover_page no_times_env 1 ''A'' ''a.pdf'') = ''1''
   \<and> \<not> sublist label (drawn_text (create_cover_page no_times_env 1 ''A'' ''a.pdf''))"
  by code_simp

text \<open>
  C2, for the text that the code draws. The number on the cover page is written in
  decimal without padding: it is the zero-padded form only from 100 on. Without the
  Arabic packages the page reads the label, a blank and the number when drawing in
  Times-Roman succeeds, and the number alone when it fails; with the packages it reads
  the shaped form of the label, a blank and the number, and the number alone when shaping
  or drawing fails.
\<close>

theorem cover_page_text:
  "(\<not> ARABIC_SUPPORT e \<and> draws e Times_Roman (label @ '' '' @ str_nat n)
      \<longrightarrow> drawn_text (create_cover_page e n link_text pdf_filename) = label @ '' '' @ str_nat n)
   \<and> (\<not> ARABIC_SUPPORT e \<and> \<not> draws e Times_Roman (label @ '' '' @ str_nat n)
      \<longrightarrow> drawn_text (create_cover_page e n link_text pdf_filename) = str_nat n)
   \<and> (ARABIC_SUPPORT e
      \<longrightarrow> drawn_text (create_cover_page e n link_text pdf_filename) =
          (case reshape_display e (label @ '' '' @ str_nat n) of
             Some bidi_text \<Rightarrow> if draws e Arabic bidi_text then bidi_text else str_nat n
           | None \<Rightarrow> str_nat n))
   \<and> (str_nat n = fmt_03d n \<longleftrightarrow> 100 \<le> n)"
proof -
  have a: "\<not> ARABIC_SUPPORT e \<and> draws e Times_Roman (label @ '' '' @ str_nat n)
      \<longrightarrow> drawn_text (create_cover_page e n link_text pdf_filename) = label @ '' '' @ str_nat n"
    by (simp add: create_cover_page_def Let_def)
  have b: "\<not> ARABIC_SUPPORT e \<and> \<not> draws e Times_Roman (label @ '' '' @ str_nat n)
      \<longrightarrow> drawn_text (create_cover_page e n link_text pdf_filename) = str_nat n"
    by (simp add: create_cover_page_def Let_def)
  have c: "ARABIC_SUPPORT e
      \<longrightarrow> drawn_text (create_cover_page e n link_text pdf_filename) =
          (case reshape_display e (label @ '' '' @ str_nat n) of
             Some bidi_text \<Rightarrow> if draws e Arabic bidi_text then bidi_text else str_nat n
           | None \<Rightarrow> str_nat n)"
    by (simp add: create_cover_page_def Let_def split: option.splits)
  from a b c str_nat_padded [of n] show ?thesis by (intro conjI)
qed

lemma str_nat_1: "str_nat 1 = ''1''"
  by code_simp

theorem cover_page_text_witness:
  "drawn_text (create_cover_page sample_env 1 ''A'' ''a.pdf'') = label @ '' 1''
   \<and> drawn_text (create_cover_page no_times_env 1 ''A'' ''a.pdf'') = ''1''
   \<and> drawn_text (create_cover_page arabic_env 1 ''A'' ''a.pdf'') = label @ '' 1''
   \<and> str_nat 1 \<noteq> fmt_03d 1"
proof -
  have s: "\<not> ARABIC_SUPPORT sample_env \<and> draws sample_env Times_Roman (label @ '' '' @ str_nat 1)"
    unfolding sample_env_def by simp
  have t: "\<not> ARABIC_SUPPORT no_times_env
      \<and> \<not> draws no_times_env Times_Roman (label @ '' '' @ str_nat 1)"
    unfolding no_times_env_def by simp
  have u: "ARABIC_SUPPORT arabic_env" unfolding arabic_env_def by simp
  have r: "reshape_display arabic_env s = Some s" "draws arabic_env Arabic s" for s
    unfolding arabic_env_def by simp_all
  from cover_page_text [of sample_env 1 "''A''" "''a.pdf''"] s
  have 1: "drawn_text (create_cover_page sample_env 1 ''A'' ''a.pdf'') = label @ '' 1''"
    unfolding str_nat_1 by simp
  from cover_page_text [of no_times_env 1 "''A''" "''a.pdf''"] t
  have 2: "drawn_text (create_cover_page no_times_env 1 ''A'' ''a.pdf'') = ''1''"
    unfolding str_nat_1 by simp
  from cover_page_text [of arabic_env 1 "''A''" "''a.pdf''"] u
  have "drawn_text (create_cover_page arabic_env 1 ''A'' ''a.pdf'') =
          (case reshape_display arabic_env (label @ '' '' @ str_nat 1) of
             Some bidi_text \<Rightarrow> if draws arabic_env Arabic bidi_text then bidi_text else str_nat 1
           | None \<Rightarrow> str_nat 1)"
    by blast
  then have 3: "drawn_text (create_cover_page arabic_env 1 ''A'' ''a.pdf'') = label @ '' 1''"
    unfolding r str_nat_1 by (simp add: r)
  from cover_page_text [of sample_env 1 "''A''" "''a.pdf''"]
  have "str_nat 1 = fmt_03d 1 \<longleftrightarrow> (100 :: nat) \<le> 1" by blast
  then have 4: "str_nat 1 \<noteq> fmt_03d 1" by simp
  from 1 2 3 4 show ?thesis by (intro conjI)
qed

section \<open>The file names of the report and of the transformer\<close>

lemma row_of_hyperlink:
  "hyperlink_cell (row_of lib ed md dd rf dest link) =
     (if status_cell (row_of lib ed md dd rf dest link) = ''Found''
      then Some (''file:///'' @ replace_backslash (abspath lib (join lib dest
             (case rf (snd link) of Some n \<Rightarrow> n | None \<Rightarrow> basename lib (snd link)))))
      else None)"
  by (simp add: row_of_def Let_def)

lemma save_links_to_xlsx_Inr_names:
  assumes "save_links_to_xlsx lib e all_hyperlinks existing_pdfs missing_pdfs path dest
      = Inr sheet"
  shows "\<exists>dd rf rows. sheet = header_row # rows
     \<and> list_all2 (\<lambda>link r. append_row
           (row_of lib (dict_of (map (\<lambda>link. (snd link, ''Found'')) existing_pdfs))
              (dict_of (map (\<lambda>link. (snd link, ''Missing'')) missing_pdfs)) dd rf dest link)
           = Inr r) all_hyperlinks rows
     \<and> (\<forall>url. url \<in> snd ` set existing_pdfs \<longrightarrow>
           (\<exists>n. pdfs_unique_filenames lib existing_pdfs (basename lib url) = Some n
              \<and> rf url = Some (label @ '' '' @ fmt_03d n @ '' - '' @ basename lib url)))"
proof -
  let ?ed = "dict_of (map (\<lambda>link. (snd link, ''Found'')) existing_pdfs)"
  let ?md = "dict_of (map (\<lambda>link. (snd link, ''Missing'')) missing_pdfs)"
  from save_links_to_xlsx_rows [of lib e all_hyperlinks existing_pdfs missing_pdfs path dest]
  obtain dd rf where
    s: "save_links_to_xlsx lib e all_hyperlinks existing_pdfs missing_pdfs path dest =
       (case rows_loop lib ?ed ?md dd rf dest all_hyperlinks [header_row] of
          Inl err \<Rightarrow> Inl err
        | Inr sheet1 \<Rightarrow> if writable e path then Inr sheet1 else Inl PermissionError)"
    and vals: "\<forall>url. url \<in> snd ` set existing_pdfs \<longrightarrow>
           (\<exists>n. pdfs_unique_filenames lib existing_pdfs (basename lib url) = Some n
              \<and> dd url = Some (label @ '' '' @ fmt_03d n)
              \<and> rf url = Some (label @ '' '' @ fmt_03d n @ '' - '' @ basename lib url))"
    by blast
  from assms s have "rows_loop lib ?ed ?md dd rf dest all_hyperlinks [header_row] = Inr sheet"
    by (simp split: sum.splits if_splits)
  then obtain rows where sh: "sheet = [header_row] @ rows"
    and all2: "list_all2 (\<lambda>link r. append_row (row_of lib ?ed ?md dd rf dest link) = Inr r)
           all_hyperlinks rows"
    unfolding rows_loop_Inr by blast
  from sh have sh': "sheet = header_row # rows" by simp
  from vals have vals': "\<forall>url. url \<in> snd ` set existing_pdfs \<longrightarrow>
           (\<exists>n. pdfs_unique_filenames lib existing_pdfs (basename lib url) = Some n
              \<and> rf url = Some (label @ '' '' @ fmt_03d n @ '' - '' @ basename lib url))"
    by blast
  from sh' all2 vals' show ?thesis by blast
qed

text \<open>
  C1. In a report that is written, the row of a hyperlink whose target is among the
  existing ones has status \<open>Found\<close> and links to the file name with the label and the padded
  number in front of the basename, whatever the options are. The transformer writes the
  file of that hyperlink under this name only when renaming is enabled; when it is
  disabled it writes it under the basename, and the link of the report names a file that
  the transformer did not write.
\<close>

theorem report_links_prefixed_name:
  assumes saved: "save_links_to_xlsx lib e all_hyperlinks existing_pdfs missing_pdfs path dest
      = Inr sheet"
    and i: "i < length all_hyperlinks"
    and found: "snd (all_hyperlinks ! i) \<in> snd ` set existing_pdfs"
  shows "\<exists>n. pdfs_unique_filenames lib existing_pdfs (basename lib (snd (all_hyperlinks ! i)))
          = Some n
     \<and> status_cell (sheet ! (i + 1)) = ''Found''
     \<and> hyperlink_cell (sheet ! (i + 1)) =
         Some (''file:///'' @ replace_backslash (abspath lib (join lib dest
           (label @ '' '' @ fmt_03d n @ '' - '' @ basename lib (snd (all_hyperlinks ! i))))))
     \<and> dest_path_of lib opts (pdfs_unique_filenames lib existing_pdfs) dest (all_hyperlinks ! i)
         = join lib dest
             (if enable_renaming opts
              then label @ '' '' @ fmt_03d n @ '' - '' @ basename lib (snd (all_hyperlinks ! i))
              else basename lib (snd (all_hyperlinks ! i)))"
proof -
  let ?ed = "dict_of (map (\<lambda>link. (snd link, ''Found'')) existing_pdfs)"
  let ?md = "dict_of (map (\<lambda>link. (snd link, ''Missing'')) missing_pdfs)"
  let ?link = "all_hyperlinks ! i"
  let ?uf = "pdfs_unique_filenames lib existing_pdfs"
  from save_links_to_xlsx_Inr_names [OF saved]
  obtain dd rf rows where sh: "sheet = header_row # rows"
    and all2: "list_all2 (\<lambda>link r. append_row (row_of lib ?ed ?md dd rf dest link) = Inr r)
          all_hyperlinks rows"
    and vals: "\<forall>url. url \<in> snd ` set existing_pdfs \<longrightarrow>
           (\<exists>n. ?uf (basename lib url) = Some n
              \<and> rf url = Some (label @ '' '' @ fmt_03d n @ '' - '' @ basename lib url))"
    by blast
  from vals found obtain n where n: "?uf (basename lib (snd ?link)) = Some n"
    and rf: "rf (snd ?link) = Some (label @ '' '' @ fmt_03d n @ '' - '' @ basename lib (snd ?link))"
    by blast
  from list_all2_nth [OF all2 i]
  have a: "append_row (row_of lib ?ed ?md dd rf dest ?link) = Inr (rows ! i)" .
  note cells = append_row_Inr [OF a]
  have st0: "status_cell (row_of lib ?ed ?md dd rf dest ?link) = ''Found''"
    unfolding row_of_status using found by simp
  from cells have "status_cell (rows ! i) = take_chars 32767
      (status_cell (row_of lib ?ed ?md dd rf dest ?link))" by blast
  then have st: "status_cell (rows ! i) = ''Found''"
    unfolding st0 take_chars_status .
  from cells have "hyperlink_cell (rows ! i) = hyperlink_cell (row_of lib ?ed ?md dd rf dest ?link)"
    by blast
  then have hl: "hyperlink_cell (rows ! i) =
      Some (''file:///'' @ replace_backslash (abspath lib (join lib dest
        (label @ '' '' @ fmt_03d n @ '' - '' @ basename lib (snd ?link)))))"
    unfolding row_of_hyperlink st0 rf by simp
  have dp: "dest_path_of lib opts ?uf dest ?link = join lib dest
      (if enable_renaming opts
       then label @ '' '' @ fmt_03d n @ '' - '' @ basename lib (snd ?link)
       else basename lib (snd ?link))"
    unfolding dest_path_of_eq [where uf = ?uf and lib = lib and link = ?link, OF n]
      pdfs_new_name_def ..
  have nth: "sheet ! (i + 1) = rows ! i" unfolding sh by simp
  from n st hl dp show ?thesis unfolding nth by blast
qed

lemma one_link_legal:
  "\<forall>link \<in> set [(''A'', ''a.pdf'')].
     \<not> list_ex illegal_char (fst link) \<and> \<not> list_ex illegal_char (basename posix_lib (snd link))"
  by code_simp

lemma one_link_facts:
  "pdfs_unique_filenames posix_lib [(''A'', ''a.pdf'')] ''a.pdf'' = Some 1"
  "basename posix_lib ''a.pdf'' = ''a.pdf''"
  "fmt_03d 1 = ''001''"
  by code_simp+

lemma one_link_paths:
  "abspath posix_lib p = p"
  "join posix_lib ''/out'' ''a.pdf'' = ''/out/a.pdf''"
  "join posix_lib ''/out'' (label @ '' 001 - a.pdf'') = ''/out/'' @ label @ '' 001 - a.pdf''"
  "replace_backslash (''/out/'' @ label @ '' 001 - a.pdf'') = ''/out/'' @ label @ '' 001 - a.pdf''"
  by code_simp+

theorem report_links_prefixed_name_witness:
  "\<exists>sheet. save_links_to_xlsx posix_lib sample_env [(''A'', ''a.pdf'')] [(''A'', ''a.pdf'')] []
        ''/out/extracted_links.xlsx'' ''/out'' = Inr sheet
     \<and> status_cell (sheet ! 1) = ''Found''
     \<and> hyperlink_cell (sheet ! 1) = Some (''file:///'' @ ''/out/'' @ label @ '' 001 - a.pdf'')
     \<and> dest_path_of posix_lib cover_only (pdfs_unique_filenames posix_lib [(''A'', ''a.pdf'')])
          ''/out'' (''A'', ''a.pdf'') = ''/out/a.pdf''
     \<and> ''/out/a.pdf'' \<noteq> ''/out/'' @ label @ '' 001 - a.pdf''"
proof -
  from save_links_to_xlsx_returns [OF one_link_legal sample_env_writable]
  obtain sheet where
    s: "save_links_to_xlsx posix_lib sample_env [(''A'', ''a.pdf'')] [(''A'', ''a.pdf'')] []
        ''/out/extracted_links.xlsx'' ''/out'' = Inr sheet"
    by blast
  have i: "0 < length [(''A'', ''a.pdf'')]" by simp
  have f: "snd ([(''A'', ''a.pdf'')] ! 0) \<in> snd ` set [(''A'', ''a.pdf'')]" by simp
  from report_links_prefixed_name [OF s i f, of cover_only]
  obtain n where
    n: "pdfs_unique_filenames posix_lib [(''A'', ''a.pdf'')]
          (basename posix_lib (snd ([(''A'', ''a.pdf'')] ! 0))) = Some n"
    and st: "status_cell (sheet ! (0 + 1)) = ''Found''"
    and hl: "hyperlink_cell (sheet ! (0 + 1)) =
         Some (''file:///'' @ replace_backslash (abspath posix_lib (join posix_lib ''/out''
           (label @ '' '' @ fmt_03d n @ '' - ''
              @ basename posix_lib (snd ([(''A'', ''a.pdf'')] ! 0))))))"
    and dp: "dest_path_of posix_lib cover_only (pdfs_unique_filenames posix_lib [(''A'', ''a.pdf'')])
          ''/out'' ([(''A'', ''a.pdf'')] ! 0)
         = join posix_lib ''/out''
             (if enable_renaming cover_only
              then label @ '' '' @ fmt_03d n @ '' - ''
                     @ basename posix_lib (snd ([(''A'', ''a.pdf'')] ! 0))
              else basename posix_lib (snd ([(''A'', ''a.pdf'')] ! 0)))"
    by blast
  from n have n1: "n = 1" by (simp add: one_link_facts)
  from st have st': "status_cell (sheet ! 1) = ''Found''" by simp
  have nm: "label @ '' '' @ fmt_03d 1 @ '' - '' @ ''a.pdf'' = label @ '' 001 - a.pdf''"
    unfolding one_link_facts by simp
  from hl have hl': "hyperlink_cell (sheet ! 1) =
      Some (''file:///'' @ ''/out/'' @ label @ '' 001 - a.pdf'')"
    unfolding n1 by (simp only: nth_Cons_0 snd_conv one_link_facts(2) nm one_link_paths add_0)
  from dp have dp': "dest_path_of posix_lib cover_only
      (pdfs_unique_filenames posix_lib [(''A'', ''a.pdf'')]) ''/out'' (''A'', ''a.pdf'')
      = ''/out/a.pdf''"
    by (simp add: cover_only_def one_link_facts one_link_paths)
  have ne: "''/out/a.pdf'' \<noteq> ''/out/'' @ label @ '' 001 - a.pdf''"
    by code_simp
  from s st' hl' dp' ne show ?thesis by blast
qed

end
